theory Spec2Isabelle
  imports Main
begin

unbundle bit_operations_syntax

section \<open>smallsh: a shallow embedding of \<^verbatim>\<open>smallsh.c\<close>\<close>

subsection \<open>Constants and C library pieces the shell relies on\<close>

definition MAX_CMD_LEN :: nat where
  "MAX_CMD_LEN = 2048"

definition MAX_ARGS :: nat where
  "MAX_ARGS = 512"

definition NUL :: char where
  "NUL = CHR 0x00"

definition SIGKILL :: int where
  "SIGKILL = 9"

text \<open>
  The wait-status macros of \<^verbatim>\<open><sys/wait.h>\<close> belong to the C library, not to the
  repository. They are written here with the Linux encoding of a wait status: the low
  seven bits hold the terminating signal (zero for a normal exit), bits 8 to 15 the exit
  code. \<^verbatim>\<open>WIFSIGNALED\<close> casts to \<^verbatim>\<open>signed char\<close> before the arithmetic shift.
\<close>

definition WTERMSIG :: "int \<Rightarrow> int" where
  "WTERMSIG status = status AND 0x7f"

definition WEXITSTATUS :: "int \<Rightarrow> int" where
  "WEXITSTATUS status = drop_bit 8 (status AND 0xff00)"

definition WIFEXITED :: "int \<Rightarrow> bool" where
  "WIFEXITED status = (WTERMSIG status = 0)"

definition WIFSIGNALED :: "int \<Rightarrow> bool" where
  "WIFSIGNALED status = (0 < drop_bit 1 (signed_take_bit 7 ((status AND 0x7f) + 1)))"

text \<open>\<^verbatim>\<open>printf("%d", n)\<close>: the decimal digits of an integer, with a sign when negative.\<close>

fun dec_nat :: "nat \<Rightarrow> string" where
  "dec_nat n = (if n < 10 then [''0123456789'' ! n]
                else dec_nat (n div 10) @ [''0123456789'' ! (n mod 10)])"

declare dec_nat.simps [simp del]

definition dec :: "int \<Rightarrow> string" where
  "dec i = (if i < 0 then CHR ''-'' # dec_nat (nat (- i)) else dec_nat (nat i))"

text \<open>
  \<^verbatim>\<open>snprintf(buf, size, ...)\<close> stores at most \<open>n - 1\<close> characters of the formatted
  text (and a terminator).
\<close>

definition snprintf :: "nat \<Rightarrow> string \<Rightarrow> string" where
  "snprintf n text = take (n - 1) text"

text \<open>
  \<^verbatim>\<open>strstr(haystack, needle)\<close>: the offset of the first occurrence of the needle, or
  \<open>None\<close> for the null pointer.
\<close>

fun strstr :: "string \<Rightarrow> string \<Rightarrow> nat option" where
  "strstr [] needle = (if needle = [] then Some 0 else None)"
| "strstr (c # cs) needle =
     (if take (length needle) (c # cs) = needle then Some 0
      else map_option Suc (strstr cs needle))"

subsection \<open>What the shell does to the outside world\<close>

text \<open>
  Every effect the shell has is appended to a trace, in program order: text given to
  \<^verbatim>\<open>printf\<close>, text given to the raw \<^verbatim>\<open>write\<close> on descriptor 1, a \<^verbatim>\<open>perror\<close>
  call (named by its prefix argument; the reason text comes from the system), and the
  system calls \<^verbatim>\<open>kill\<close>, \<^verbatim>\<open>chdir\<close>, \<^verbatim>\<open>sigaction\<close> on SIGINT, \<^verbatim>\<open>open\<close>,
  \<^verbatim>\<open>dup2\<close> and \<^verbatim>\<open>close\<close>.
\<close>

datatype open_mode = O_RDONLY | O_WRONLY | O_WRONLY_CREAT_TRUNC

datatype event =
    Printf string
  | Write string
  | Perror string
  | Kill int int
  | Chdir "string option"
  | Sigint_ignored bool
  | Open_file string open_mode
  | Dup2 int int
  | Close_fd int

text \<open>
  A call either returns a value or ends the process through \<^verbatim>\<open>exit(code)\<close>.
\<close>

datatype 'a call = Ret 'a | Exit int

subsection \<open>\<^verbatim>\<open>expandPID\<close>\<close>

text \<open>
  \<open>pid\<close> is what \<^verbatim>\<open>getpid()\<close> returns and \<open>alloc_ok\<close> tells whether the one
  allocation of the call (\<^verbatim>\<open>strdup\<close> or \<^verbatim>\<open>malloc\<close>) succeeds. The result is the
  list of events of the call and the returned pointer: \<open>Some\<close> of the string it points
  to, or \<open>None\<close> for the null pointer that a failed \<^verbatim>\<open>strdup\<close> gives.
\<close>

definition expandPID :: "int \<Rightarrow> bool \<Rightarrow> string \<Rightarrow> event list \<times> string option call" where
  "expandPID pid alloc_ok token =
     (case strstr token ''$$'' of
        None \<Rightarrow> ([], Ret (if alloc_ok then Some token else None))
      | Some pos \<Rightarrow>
          let pid_str = snprintf 16 (dec pid);
              new_length = int (length token) - 2 + int (length pid_str)
          in if \<not> alloc_ok then ([Perror ''malloc''], Exit 1)
             else ([], Ret (Some (snprintf (nat (new_length + 1))
                                    (take pos token @ pid_str @ drop (pos + 2) token)))))"

subsection \<open>The state of the shell and of its surroundings\<close>

text \<open>
  A child of the shell, as the kernel's process table has it: still running, or
  terminated and not yet reaped, with its wait status.
\<close>

datatype child = Running | Zombie int

text \<open>
  The globals \<^verbatim>\<open>fgOnlyMode\<close> and \<^verbatim>\<open>lastStatus\<close>; the locals of \<^verbatim>\<open>main\<close> that live
  across iterations of its loop (\<^verbatim>\<open>input\<close>, \<^verbatim>\<open>inputFile\<close>, \<^verbatim>\<open>outputFile\<close>,
  \<^verbatim>\<open>background\<close>); the position \<^verbatim>\<open>strtok\<close> saves between calls; the unread
  standard input; the shell's children; and the trace of effects so far.

  \<^verbatim>\<open>input\<close> is a byte array and \<^verbatim>\<open>inputFile\<close>, \<^verbatim>\<open>outputFile\<close> are pointers into
  it: they are kept as offsets (\<open>None\<close> is the null pointer), and the string a
  pointer denotes is read off the array when it is used, as C does.
\<close>

record world =
  fgOnlyMode :: int
  lastStatus :: int
  input :: "char list"
  olds :: nat
  inputFile :: "nat option"
  outputFile :: "nat option"
  background :: int
  stdin :: string
  children :: "(int \<times> child) list"
  trace :: "event list"

text \<open>
  What the surroundings answer during one iteration of the main loop: the shell's
  process id, the value of \<^verbatim>\<open>HOME\<close>, whether the allocation made for argument slot
  \<open>k\<close> succeeds, and the values returned by \<^verbatim>\<open>fork\<close>, by the blocking
  \<^verbatim>\<open>waitpid\<close> (the status it stores), by \<^verbatim>\<open>chdir\<close>, \<^verbatim>\<open>open\<close>, \<^verbatim>\<open>dup2\<close>
  and \<^verbatim>\<open>execvp\<close>.
\<close>

record env =
  getpid :: int
  getenv_HOME :: "string option"
  alloc_ok :: "nat \<Rightarrow> bool"
  fork_ret :: int
  wait_status :: int
  chdir_ret :: "string option \<Rightarrow> int"
  open_ret :: "string \<Rightarrow> open_mode \<Rightarrow> int"
  dup2_ret :: "int \<Rightarrow> int \<Rightarrow> int"
  execvp_fails :: bool

definition emit :: "event list \<Rightarrow> world \<Rightarrow> world" where
  "emit evs w = w\<lparr>trace := trace w @ evs\<rparr>"

text \<open>The C string that starts at offset \<open>p\<close> of a byte array.\<close>

definition cstr :: "char list \<Rightarrow> nat \<Rightarrow> string" where
  "cstr buf p = takeWhile (\<lambda>c. c \<noteq> NUL) (drop p buf)"

subsection \<open>\<^verbatim>\<open>strtok\<close> on the line buffer\<close>

text \<open>
  \<^verbatim>\<open>strtok(str, delim)\<close> as the C library implements it, on the array \<^verbatim>\<open>input\<close>:
  start at \<open>str\<close>, or at the saved position when \<open>str\<close> is null; skip delimiters;
  at the end of the string save the position and return null; otherwise the token
  starts here, the first delimiter after it is overwritten with a zero byte, and the
  position after it is saved (the position of the terminator when no delimiter follows).
\<close>

definition strtok :: "nat option \<Rightarrow> string \<Rightarrow> world \<Rightarrow> nat option \<times> world" where
  "strtok str delim w =
     (let buf = input w;
          s0 = (case str of Some p \<Rightarrow> p | None \<Rightarrow> olds w);
          s = s0 + length (takeWhile (\<lambda>c. c \<in> set delim) (drop s0 buf))
      in if cstr buf s = [] then (None, w\<lparr>olds := s\<rparr>)
         else
           let e = s + length (takeWhile (\<lambda>c. c \<notin> set delim) (cstr buf s))
           in if e < length buf \<and> buf ! e \<in> set delim
              then (Some s, w\<lparr>input := buf[e := NUL], olds := e + 1\<rparr>)
              else (Some s, w\<lparr>olds := e\<rparr>))"

subsection \<open>\<^verbatim>\<open>parseInput\<close>\<close>

text \<open>
  The array \<^verbatim>\<open>args\<close> is the list of its entries before the terminating null; an
  entry is \<open>None\<close> when \<^verbatim>\<open>strdup\<close> returned null. \<open>arg_at args i\<close> is \<^verbatim>\<open>args[i]\<close>
  for \<open>i\<close> up to the terminator.
\<close>

definition arg_at :: "string option list \<Rightarrow> nat \<Rightarrow> string option" where
  "arg_at args i = (if i < length args then args ! i else None)"

text \<open>
  The body of the \<^verbatim>\<open>while\<close> loop for the token at offset \<open>t\<close>: it returns the next
  token and the arguments so far. The second operand of \<^verbatim>\<open>&&\<close> in the test for
  \<^verbatim>\<open>&\<close> is a call of \<^verbatim>\<open>strtok\<close>, made only when the token is \<^verbatim>\<open>&\<close>.
\<close>

definition parse_token ::
  "env \<Rightarrow> nat \<Rightarrow> string option list \<Rightarrow> world \<Rightarrow> (nat option \<times> string option list) call \<times> world" where
  "parse_token e t args w =
     (if cstr (input w) t = ''<'' then
        (case strtok None '' '' w of (file, w1) \<Rightarrow>
          (case strtok None '' '' (w1\<lparr>inputFile := file\<rparr>) of (nxt, w2) \<Rightarrow>
            (Ret (nxt, args), w2)))
      else if cstr (input w) t = ''>'' then
        (case strtok None '' '' w of (file, w1) \<Rightarrow>
          (case strtok None '' '' (w1\<lparr>outputFile := file\<rparr>) of (nxt, w2) \<Rightarrow>
            (Ret (nxt, args), w2)))
      else
        (case (if cstr (input w) t = ''&''
               then (case strtok None '' '' w of (peek, w1) \<Rightarrow> (peek = None, w1))
               else (False, w)) of
           (last_amp, w1) \<Rightarrow>
             if last_amp then
               (case strtok None '' '' (if fgOnlyMode w1 = 0 then w1\<lparr>background := 1\<rparr> else w1) of
                  (nxt, w2) \<Rightarrow> (Ret (nxt, args), w2))
             else
               (case expandPID (getpid e) (alloc_ok e (length args)) (cstr (input w1) t) of
                  (evs, Exit c) \<Rightarrow> (Exit c, emit evs w1)
                | (evs, Ret expanded) \<Rightarrow>
                    (case strtok None '' '' (emit evs w1) of
                       (nxt, w2) \<Rightarrow> (Ret (nxt, args @ [expanded]), w2)))))"

text \<open>Facts about \<^verbatim>\<open>strtok\<close> that make the parsing loop terminate.\<close>

lemma strtok_length: "strtok str delim w = (r, w') \<Longrightarrow> length (input w') = length (input w)"
  by (auto simp: strtok_def Let_def split: if_splits)

lemma strtok_olds_mono: "strtok None delim w = (r, w') \<Longrightarrow> olds w \<le> olds w'"
  by (auto simp: strtok_def Let_def split: if_splits)

lemma cstr_nonempty_lt: "cstr buf s \<noteq> [] \<Longrightarrow> s < length buf"
  by (cases "s < length buf") (auto simp: cstr_def)

lemma skip_not_delim:
  assumes "cstr buf (s0 + length (takeWhile P (drop s0 buf))) \<noteq> []"
  shows "\<not> P (hd (cstr buf (s0 + length (takeWhile P (drop s0 buf)))))"
proof -
  let ?s = "s0 + length (takeWhile P (drop s0 buf))"
  have d: "drop ?s buf = dropWhile P (drop s0 buf)"
    by (simp add: dropWhile_eq_drop add.commute)
  from assms have ne: "drop ?s buf \<noteq> []" by (auto simp: cstr_def)
  then have np: "\<not> P (hd (drop ?s buf))" unfolding d by (rule hd_dropWhile)
  from assms have "hd (cstr buf ?s) = hd (drop ?s buf)"
    unfolding cstr_def by (cases "drop ?s buf") (auto split: if_splits)
  with np show ?thesis by simp
qed

lemma strtok_progress:
  assumes "strtok None delim w = (Some t, w')"
  shows "olds w < olds w' \<and> olds w < length (input w)"
proof -
  let ?buf = "input w"
  let ?s = "olds w + length (takeWhile (\<lambda>c. c \<in> set delim) (drop (olds w) ?buf))"
  from assms have ne: "cstr ?buf ?s \<noteq> []"
    by (auto simp: strtok_def Let_def split: if_splits)
  then have lt: "?s < length ?buf" by (rule cstr_nonempty_lt)
  have "hd (cstr ?buf ?s) \<notin> set delim" using skip_not_delim [OF ne] .
  with ne have "takeWhile (\<lambda>c. c \<notin> set delim) (cstr ?buf ?s) \<noteq> []"
    by (cases "cstr ?buf ?s") auto
  then have "0 < length (takeWhile (\<lambda>c. c \<notin> set delim) (cstr ?buf ?s))" by simp
  with assms ne have "?s < olds w'"
    by (auto simp: strtok_def Let_def split: if_splits)
  with lt show ?thesis by linarith
qed

lemma parse_token_last:
  assumes "parse_token e t args w = (Ret (nxt, args'), w')"
  shows "\<exists>w1. strtok None '' '' w1 = (nxt, w') \<and> olds w \<le> olds w1 \<and> length (input w1) = length (input w)"
proof (cases "cstr (input w) t = ''<'' \<or> cstr (input w) t = ''>''")
  case True
  with assms obtain fl w1 f where
    a: "strtok None '' '' w = (fl, w1)" and b: "strtok None '' '' (f w1) = (nxt, w')"
    and f: "olds (f w1) = olds w1" "input (f w1) = input w1"
    by (fastforce simp: parse_token_def split: if_splits prod.splits)
  from a have "olds w \<le> olds w1" "length (input w1) = length (input w)"
    by (auto dest: strtok_olds_mono strtok_length)
  with b f show ?thesis by auto
next
  case False
  show ?thesis
  proof (cases "cstr (input w) t = ''&''")
    case True
    obtain peek w1 where a: "strtok None '' '' w = (peek, w1)" by (cases "strtok None '' '' w")
    then have m: "olds w \<le> olds w1" "length (input w1) = length (input w)"
      by (auto dest: strtok_olds_mono strtok_length)
    from assms False True a obtain w2 where
      "strtok None '' '' w2 = (nxt, w')" "olds w2 = olds w1" "input w2 = input w1"
      by (auto simp: parse_token_def emit_def split: if_splits prod.splits call.splits)
    with m show ?thesis by auto
  next
    case F2: False
    from assms False F2 obtain w2 where
      "strtok None '' '' w2 = (nxt, w')" "olds w2 = olds w" "input w2 = input w"
      by (auto simp: parse_token_def emit_def split: if_splits prod.splits call.splits)
    then show ?thesis by auto
  qed
qed

lemma parse_token_progress:
  assumes "parse_token e t args w = (Ret (Some t', args'), w')"
  shows "length (input w') - olds w' < length (input w) - olds w"
proof -
  from parse_token_last [OF assms] obtain w1 where
    a: "strtok None '' '' w1 = (Some t', w')" and b: "olds w \<le> olds w1"
    and c: "length (input w1) = length (input w)" by blast
  from strtok_progress [OF a] strtok_length [OF a] b c show ?thesis by linarith
qed

text \<open>
  The \<^verbatim>\<open>while\<close> loop of \<^verbatim>\<open>parseInput\<close>. It ends because every token that
  \<^verbatim>\<open>strtok\<close> returns moves the saved position forward in the buffer.
\<close>

function parse_loop ::
  "env \<Rightarrow> nat option \<Rightarrow> string option list \<Rightarrow> world \<Rightarrow> string option list call \<times> world" where
  "parse_loop e token args w =
     (case token of
        None \<Rightarrow> (Ret args, w)
      | Some t \<Rightarrow>
          if \<not> length args < MAX_ARGS - 1 then (Ret args, w)
          else
            (case parse_token e t args w of
               (Exit c, w') \<Rightarrow> (Exit c, w')
             | (Ret (nxt, args'), w') \<Rightarrow> parse_loop e nxt args' w'))"
  by pat_completeness auto
termination
proof (relation "measure (\<lambda>(e, token, args, w).
          case token of None \<Rightarrow> 0 | Some t \<Rightarrow> Suc (length (input w) - olds w))")
  show "wf (measure (\<lambda>(e, token, args, w).
          case token of None \<Rightarrow> 0 | Some t \<Rightarrow> Suc (length (input w) - olds w)))" by simp
next
  fix e :: env and token t args w x1 w' x1a nxt args'
  assume "token = Some t" "(x1, w') = parse_token e t args w" "x1 = Ret x1a" "(nxt, args') = x1a"
  then have pt: "parse_token e t args w = (Ret (nxt, args'), w')" by simp
  show "((e, nxt, args', w'), (e, token, args, w)) \<in> measure (\<lambda>(e, token, args, w).
          case token of None \<Rightarrow> 0 | Some t \<Rightarrow> Suc (length (input w) - olds w))"
  proof (cases nxt)
    case None
    with \<open>token = Some t\<close> show ?thesis by simp
  next
    case (Some t')
    with pt parse_token_progress have "length (input w') - olds w' < length (input w) - olds w" by blast
    with Some \<open>token = Some t\<close> show ?thesis by simp
  qed
qed


definition parseInput :: "env \<Rightarrow> world \<Rightarrow> (string option list \<times> int) call \<times> world" where
  "parseInput e w =
     (case strtok (Some 0) '' '' (w\<lparr>background := 0\<rparr>) of (token, w1) \<Rightarrow>
       (case parse_loop e token [] w1 of
          (Exit c, w2) \<Rightarrow> (Exit c, w2)
        | (Ret args, w2) \<Rightarrow>
            (Ret (args,
                  case arg_at args 0 of
                    None \<Rightarrow> 0
                  | Some a \<Rightarrow> if take 1 a = ''#'' then 0 else 1),
             w2)))"

subsection \<open>The builtin helpers \<^verbatim>\<open>changeDirectory\<close> and \<^verbatim>\<open>displayStatus\<close>\<close>

text \<open>
  Both functions are defined in the source file; \<^verbatim>\<open>main\<close> does not call them (see
  \<open>main_iteration\<close> below).
\<close>

definition changeDirectory :: "env \<Rightarrow> string option list \<Rightarrow> world \<Rightarrow> world" where
  "changeDirectory e args w =
     (case arg_at args 1 of
        None \<Rightarrow> emit [Chdir (getenv_HOME e)] w
      | Some dir \<Rightarrow>
          if chdir_ret e (Some dir) \<noteq> 0
          then emit [Chdir (Some dir), Perror ''smallsh''] w
          else emit [Chdir (Some dir)] w)"

definition displayStatus :: "world \<Rightarrow> world" where
  "displayStatus w =
     (if WIFEXITED (lastStatus w)
      then emit [Printf (''exit value '' @ dec (WEXITSTATUS (lastStatus w)) @ ''\<newline>'')] w
      else emit [Printf (''terminated by signal '' @ dec (WTERMSIG (lastStatus w)) @ ''\<newline>'')] w)"

subsection \<open>\<^verbatim>\<open>handle_SIGTSTP\<close>\<close>

text \<open>
  \<open>write_ret\<close> is the value the \<^verbatim>\<open>write\<close> call returns. The \<open>Write\<close> event records
  the call itself. The handler is a transition of its own on the state: it runs between
  the steps of the main loop, at whatever moment the signal arrives.
\<close>

definition handle_SIGTSTP :: "int \<Rightarrow> int \<Rightarrow> world \<Rightarrow> world" where
  "handle_SIGTSTP signo write_ret w =
     (if fgOnlyMode w = 0 then
        let w1 = w\<lparr>fgOnlyMode := 1\<rparr>;
            message = ''\<newline>Entering foreground-only mode (& is now ignored)\<newline>''
        in if write_ret = - 1 then emit [Write message, Perror ''write''] w1
           else emit [Write message] w1
      else
        let w1 = w\<lparr>fgOnlyMode := 0\<rparr>;
            message = ''\<newline>Exiting foreground-only mode\<newline>''
        in if write_ret = - 1 then emit [Write message, Perror ''write''] w1
           else emit [Write message] w1)"

subsection \<open>The Job Reaper: \<^verbatim>\<open>checkBackgroundProcesses\<close> and \<^verbatim>\<open>killBackgroundProcesses\<close>\<close>

text \<open>
  \<^verbatim>\<open>waitpid(-1, &status, WNOHANG)\<close>: when some child has terminated, the kernel removes
  one (here the first in the table) and returns its pid and status; otherwise it returns
  0 when there are children and -1 when there are none, and stores no status (the
  second component is then not used by the callers).
\<close>

fun reap :: "(int \<times> child) list \<Rightarrow> (int \<times> int \<times> (int \<times> child) list) option" where
  "reap [] = None"
| "reap ((p, Zombie st) # cs) = Some (p, st, cs)"
| "reap ((p, Running) # cs) =
     (case reap cs of
        None \<Rightarrow> None
      | Some (q, st, cs') \<Rightarrow> Some (q, st, (p, Running) # cs'))"

definition waitpid_nohang :: "world \<Rightarrow> int \<times> int \<times> world" where
  "waitpid_nohang w =
     (case reap (children w) of
        Some (p, st, cs) \<Rightarrow> (p, st, w\<lparr>children := cs\<rparr>)
      | None \<Rightarrow> (if children w = [] then - 1 else 0, 0, w))"

lemma reap_shorter: "reap cs = Some (p, st, cs') \<Longrightarrow> length cs' < length cs"
  by (induction cs arbitrary: cs' rule: reap.induct) (auto split: option.splits)

lemma waitpid_nohang_shorter:
  "waitpid_nohang w = (pid, st, w') \<Longrightarrow> 0 < pid \<Longrightarrow> length (children w') < length (children w)"
  by (auto simp: waitpid_nohang_def split: option.splits if_splits dest: reap_shorter)

function checkBackgroundProcesses :: "world \<Rightarrow> world" where
  "checkBackgroundProcesses w =
     (case waitpid_nohang w of
        (pid, childStatus, w1) \<Rightarrow>
          if 0 < pid then
            checkBackgroundProcesses
              (if fgOnlyMode w1 = 0 then
                 emit ([Printf (''background pid '' @ dec pid @ '' is done: '')] @
                       (if WIFEXITED childStatus
                        then [Printf (''exit value '' @ dec (WEXITSTATUS childStatus) @ ''\<newline>'')]
                        else if WIFSIGNALED childStatus
                        then [Printf (''terminated by signal '' @ dec (WTERMSIG childStatus) @ ''\<newline>'')]
                        else [])) w1
               else w1)
          else w1)"
  by pat_completeness auto
termination
proof (relation "measure (\<lambda>w. length (children w))")
  show "wf (measure (\<lambda>w. length (children w)))" by simp
next
  fix w :: world and x y pid childStatus w1
  assume a: "(pid, y) = waitpid_nohang w" "(childStatus, w1) = y" "0 < pid"
  then have "waitpid_nohang w = (pid, childStatus, w1)" by simp
  from waitpid_nohang_shorter [OF this a(3)]
  show "(if fgOnlyMode w1 = 0 then
           emit ([Printf (''background pid '' @ dec pid @ '' is done: '')] @
                 (if WIFEXITED childStatus
                  then [Printf (''exit value '' @ dec (WEXITSTATUS childStatus) @ ''\<newline>'')]
                  else if WIFSIGNALED childStatus
                  then [Printf (''terminated by signal '' @ dec (WTERMSIG childStatus) @ ''\<newline>'')]
                  else [])) w1
         else w1, w) \<in> measure (\<lambda>w. length (children w))"
    by (simp add: emit_def)
qed

declare checkBackgroundProcesses.simps [simp del]

function killBackgroundProcesses :: "world \<Rightarrow> world" where
  "killBackgroundProcesses w =
     (case waitpid_nohang w of
        (pid, unused, w1) \<Rightarrow>
          if 0 < pid then killBackgroundProcesses (emit [Kill pid SIGKILL] w1) else w1)"
  by pat_completeness auto
termination
proof (relation "measure (\<lambda>w. length (children w))")
  show "wf (measure (\<lambda>w. length (children w)))" by simp
next
  fix w :: world and x y pid unused w1
  assume a: "(pid, y) = waitpid_nohang w" "(unused, w1) = y" "0 < pid"
  then have "waitpid_nohang w = (pid, unused, w1)" by simp
  from waitpid_nohang_shorter [OF this a(3)]
  show "(emit [Kill pid SIGKILL] w1, w) \<in> measure (\<lambda>w. length (children w))"
    by (simp add: emit_def)
qed

declare killBackgroundProcesses.simps [simp del]

subsection \<open>\<^verbatim>\<open>executeCommand\<close>\<close>

text \<open>
  How a function of the shell can end: it returns; the shell calls \<^verbatim>\<open>exit\<close>; or, in
  the process that \<^verbatim>\<open>fork\<close> created, the child calls \<^verbatim>\<open>exit\<close> or replaces its
  image with the command (given by its argument vector up to the first null).
\<close>

datatype outcome =
    Returns world
  | Exits int world
  | Child_exits int world
  | Child_execs "string list" world

text \<open>The child's redirection of standard input, then of standard output.\<close>

definition child_stdin :: "env \<Rightarrow> nat option \<Rightarrow> int \<Rightarrow> world \<Rightarrow> unit call \<times> world" where
  "child_stdin e inFile bg w =
     (case inFile of
        Some p \<Rightarrow>
          let path = cstr (input w) p;
              inputFD = open_ret e path O_RDONLY;
              w1 = emit [Open_file path O_RDONLY] w
          in if inputFD = - 1 then (Exit 1, emit [Perror ''cannot open input file''] w1)
             else if dup2_ret e inputFD 0 = - 1
             then (Exit 1, emit [Dup2 inputFD 0, Perror ''dup2 input'', Close_fd inputFD] w1)
             else (Ret (), emit [Dup2 inputFD 0, Close_fd inputFD] w1)
      | None \<Rightarrow>
          if bg \<noteq> 0 then
            let devNull = open_ret e ''/dev/null'' O_RDONLY;
                w1 = emit [Open_file ''/dev/null'' O_RDONLY] w
            in if devNull = - 1
               then (Exit 1, emit [Perror ''dup2 input to /dev/null'', Close_fd devNull] w1)
               else if dup2_ret e devNull 0 = - 1
               then (Exit 1, emit [Dup2 devNull 0, Perror ''dup2 input to /dev/null'', Close_fd devNull] w1)
               else (Ret (), emit [Dup2 devNull 0, Close_fd devNull] w1)
          else (Ret (), w))"

definition child_stdout :: "env \<Rightarrow> nat option \<Rightarrow> int \<Rightarrow> world \<Rightarrow> unit call \<times> world" where
  "child_stdout e outFile bg w =
     (case outFile of
        Some p \<Rightarrow>
          let path = cstr (input w) p;
              outputFD = open_ret e path O_WRONLY_CREAT_TRUNC;
              w1 = emit [Open_file path O_WRONLY_CREAT_TRUNC] w
          in if outputFD = - 1 then (Exit 1, emit [Perror ''cannot open output file''] w1)
             else if dup2_ret e outputFD 1 = - 1
             then (Exit 1, emit [Dup2 outputFD 1, Perror ''dup2 output'', Close_fd outputFD] w1)
             else (Ret (), emit [Dup2 outputFD 1, Close_fd outputFD] w1)
      | None \<Rightarrow>
          if bg \<noteq> 0 then
            let devNull = open_ret e ''/dev/null'' O_WRONLY;
                w1 = emit [Open_file ''/dev/null'' O_WRONLY] w
            in if devNull = - 1
               then (Exit 1, emit [Perror ''dup2 output to /dev/null'', Close_fd devNull] w1)
               else if dup2_ret e devNull 1 = - 1
               then (Exit 1, emit [Dup2 devNull 1, Perror ''dup2 output to /dev/null'', Close_fd devNull] w1)
               else (Ret (), emit [Dup2 devNull 1, Close_fd devNull] w1)
          else (Ret (), w))"

text \<open>The block of the child process (\<^verbatim>\<open>spawnpid == 0\<close>).\<close>

definition child_block ::
  "env \<Rightarrow> string option list \<Rightarrow> nat option \<Rightarrow> nat option \<Rightarrow> int \<Rightarrow> world \<Rightarrow> outcome" where
  "child_block e args inFile outFile bg w =
     (case child_stdin e inFile bg (emit [Sigint_ignored (bg \<noteq> 0)] w) of
        (Exit c, w1) \<Rightarrow> Child_exits c w1
      | (Ret u, w1) \<Rightarrow>
          (case child_stdout e outFile bg w1 of
             (Exit c, w2) \<Rightarrow> Child_exits c w2
           | (Ret u', w2) \<Rightarrow>
               if execvp_fails e
               then Child_exits 1 (emit [Perror (case arg_at args 0 of Some a \<Rightarrow> a | None \<Rightarrow> [])] w2)
               else Child_execs (map the (takeWhile (\<lambda>a. a \<noteq> None) args)) w2))"

text \<open>
  \<open>launch_background\<close> is the value of the parameter \<^verbatim>\<open>background\<close> after the first
  statement of \<^verbatim>\<open>executeCommand\<close>: the flag that the rest of the function acts on.
\<close>

definition launch_background :: "world \<Rightarrow> int \<Rightarrow> int" where
  "launch_background w bg = (if fgOnlyMode w = 1 then 0 else bg)"

definition executeCommand ::
  "env \<Rightarrow> string option list \<Rightarrow> nat option \<Rightarrow> nat option \<Rightarrow> int \<Rightarrow> world \<Rightarrow> outcome" where
  "executeCommand e args inFile outFile bg0 w =
     (let bg = launch_background w bg0;
          spawnpid = fork_ret e
      in if spawnpid = - 1 then Exits 1 (emit [Perror ''fork''] w)
         else if spawnpid = 0 then child_block e args inFile outFile bg w
         else if bg \<noteq> 0 \<and> fgOnlyMode w = 0 then
           Returns (emit [Printf (''background pid is '' @ dec spawnpid @ ''\<newline>'')]
                      (w\<lparr>children := children w @ [(spawnpid, Running)]\<rparr>))
         else
           let w1 = w\<lparr>lastStatus := wait_status e\<rparr>
           in Returns (if WIFSIGNALED (lastStatus w1)
                       then emit [Printf (''terminated by signal '' @ dec (WTERMSIG (lastStatus w1)) @ ''\<newline>'')] w1
                       else w1))"

subsection \<open>\<^verbatim>\<open>main\<close>\<close>

text \<open>
  \<^verbatim>\<open>fgets(input, n, stdin)\<close>: at end of input it returns null and leaves the buffer
  alone; otherwise it moves characters from the input to the front of the buffer, up to
  and including the first newline and at most \<open>n - 1\<close> of them, and puts a zero byte
  after them.
\<close>

definition fgets :: "nat \<Rightarrow> world \<Rightarrow> bool \<times> world" where
  "fgets n w =
     (if stdin w = [] then (False, w)
      else
        let chunk = take (min (n - 1) (Suc (length (takeWhile (\<lambda>c. c \<noteq> CHR ''\<newline>'') (stdin w))))) (stdin w)
        in (True, w\<lparr>input := chunk @ NUL # drop (Suc (length chunk)) (input w),
                    stdin := drop (length chunk) (stdin w)\<rparr>))"

definition strcspn :: "string \<Rightarrow> string \<Rightarrow> nat" where
  "strcspn str reject = length (takeWhile (\<lambda>c. c \<notin> set reject) str)"

text \<open>
  The first part of an iteration of the \<^verbatim>\<open>while (1)\<close> loop of \<^verbatim>\<open>main\<close>: the sweep,
  the prompt, \<^verbatim>\<open>fgets\<close> (\<open>False\<close> when it returns null) and the replacement of the
  newline by a zero byte.
\<close>

definition read_line :: "world \<Rightarrow> bool \<times> world" where
  "read_line w =
     (case fgets MAX_CMD_LEN (emit [Printf '': ''] (checkBackgroundProcesses w)) of
        (False, w1) \<Rightarrow> (False, w1)
      | (True, w1) \<Rightarrow>
          (True, w1\<lparr>input := (input w1)[strcspn (cstr (input w1) 0) ''\<newline>'' := NUL]\<rparr>))"

text \<open>
  One iteration of the loop. \<open>Returns\<close> means that the iteration is over and the loop
  goes on (also through \<^verbatim>\<open>continue\<close>); \<open>Exits 0\<close> after \<^verbatim>\<open>break\<close> is the
  \<^verbatim>\<open>return 0\<close> of \<^verbatim>\<open>main\<close>.
\<close>

definition main_iteration :: "env \<Rightarrow> world \<Rightarrow> outcome" where
  "main_iteration e w =
     (case read_line w of
        (False, w1) \<Rightarrow> Returns w1
      | (True, w1) \<Rightarrow>
          (case parseInput e w1 of
             (Exit c, w2) \<Rightarrow> Exits c w2
           | (Ret (args, valid), w2) \<Rightarrow>
               if valid = 0 then Returns w2
               else if arg_at args 0 = Some ''exit'' then Exits 0 w2
               else
                 (case (if arg_at args 0 = Some ''cd'' then
                          Returns (emit [Chdir (case arg_at args 1 of
                                                  Some dir \<Rightarrow> Some dir
                                                | None \<Rightarrow> getenv_HOME e)] w2)
                        else if arg_at args 0 = Some ''status'' then
                          Returns (emit [Printf (''exit value '' @ dec (WEXITSTATUS (lastStatus w2)) @ ''\<newline>'')] w2)
                        else executeCommand e args (inputFile w2) (outputFile w2) (background w2) w2) of
                    Returns w3 \<Rightarrow> Returns (w3\<lparr>inputFile := None, outputFile := None, background := 0\<rparr>)
                  | other \<Rightarrow> other)))"

text \<open>
  The loop, for as many iterations as there are answers of the surroundings; it stops
  earlier when the process ends.
\<close>

fun main_loop :: "env list \<Rightarrow> world \<Rightarrow> outcome" where
  "main_loop [] w = Returns w"
| "main_loop (e # es) w =
     (case main_iteration e w of
        Returns w' \<Rightarrow> main_loop es w'
      | other \<Rightarrow> other)"

subsection \<open>The tokens of a line\<close>

text \<open>
  The specification's tokenizer, for comparison with what \<^verbatim>\<open>strtok\<close> does in place:
  the tokens of a line are its maximal runs of characters other than the space.
  \<open>upcoming token w\<close> lists the token the parsing loop holds and the tokens that
  \<^verbatim>\<open>strtok\<close> has not returned yet.
\<close>

function line_tokens :: "string \<Rightarrow> string list" where
  "line_tokens s =
     (case dropWhile (\<lambda>c. c = CHR '' '') s of
        [] \<Rightarrow> []
      | c # cs \<Rightarrow>
          takeWhile (\<lambda>c. c \<noteq> CHR '' '') (c # cs) #
          line_tokens (dropWhile (\<lambda>c. c \<noteq> CHR '' '') (c # cs)))"
  by pat_completeness auto
termination
proof (relation "measure length")
  show "wf (measure length)" by simp
next
  fix s :: string and c cs
  assume a: "dropWhile (\<lambda>c. c = CHR '' '') s = c # cs"
  then have "c \<noteq> CHR '' ''" using hd_dropWhile [of "\<lambda>c. c = CHR '' ''" s] by simp
  then have "dropWhile (\<lambda>c. c \<noteq> CHR '' '') (c # cs) = dropWhile (\<lambda>c. c \<noteq> CHR '' '') cs" by simp
  moreover have "length (dropWhile (\<lambda>c. c \<noteq> CHR '' '') cs) \<le> length cs" by (rule length_dropWhile_le)
  moreover have "length (c # cs) \<le> length s" using a length_dropWhile_le [of "\<lambda>c. c = CHR '' ''" s] by simp
  ultimately show "(dropWhile (\<lambda>c. c \<noteq> CHR '' '') (c # cs), s) \<in> measure length" by simp
qed

declare line_tokens.simps [simp del]

definition upcoming :: "nat option \<Rightarrow> world \<Rightarrow> string list" where
  "upcoming token w =
     (case token of None \<Rightarrow> [] | Some t \<Rightarrow> [cstr (input w) t]) @
     line_tokens (cstr (input w) (olds w))"

text \<open>The state in which an outcome leaves the process, and the exit code of the shell.\<close>

primrec final_world :: "outcome \<Rightarrow> world" where
  "final_world (Returns w) = w"
| "final_world (Exits c w) = w"
| "final_world (Child_exits c w) = w"
| "final_world (Child_execs argv w) = w"

primrec exit_code :: "outcome \<Rightarrow> int option" where
  "exit_code (Returns w) = None"
| "exit_code (Exits c w) = Some c"
| "exit_code (Child_exits c w) = None"
| "exit_code (Child_execs argv w) = None"

subsection \<open>Sample surroundings and states\<close>

text \<open>
  An environment in which every call succeeds (the shell runs as process 4242, \<^verbatim>\<open>fork\<close>
  returns the child's pid 100 to the parent, a foreground child exits with code 0), and
  the shell as \<^verbatim>\<open>main\<close> starts it: both globals zero, no redirection, nothing to read,
  no children. C leaves the array \<^verbatim>\<open>input\<close> uninitialised; zero bytes are one possible
  content. \<open>typed text\<close> is that shell with \<open>text\<close> waiting on standard input, and
  \<open>line_read line\<close> is that shell with \<open>line\<close> in its buffer, zero-terminated, as the
  buffer is when \<^verbatim>\<open>main\<close> calls \<^verbatim>\<open>parseInput\<close>.
\<close>

definition env0 :: env where
  "env0 = \<lparr>getpid = 4242, getenv_HOME = Some ''/home/user'', alloc_ok = (\<lambda>k. True),
            fork_ret = 100, wait_status = 0, chdir_ret = (\<lambda>path. 0),
            open_ret = (\<lambda>path mode. 3), dup2_ret = (\<lambda>fd target. target), execvp_fails = False\<rparr>"

definition world0 :: world where
  "world0 = \<lparr>fgOnlyMode = 0, lastStatus = 0, input = replicate MAX_CMD_LEN NUL, olds = 0,
              inputFile = None, outputFile = None, background = 0, stdin = [],
              children = [], trace = []\<rparr>"

definition typed :: "string \<Rightarrow> world" where
  "typed text = world0\<lparr>stdin := text\<rparr>"

definition line_read :: "string \<Rightarrow> world" where
  "line_read line = world0\<lparr>input := line @ replicate (MAX_CMD_LEN - length line) NUL\<rparr>"

text \<open>
  The report the specification gives for a child that a sweep finds terminated:
  \<^verbatim>\<open>background pid N is done: \<close> followed by \<^verbatim>\<open>exit value N\<close> or
  \<^verbatim>\<open>terminated by signal N\<close>. A running child is not reported.
\<close>

definition sweep_report :: "int \<times> child \<Rightarrow> event list" where
  "sweep_report = (\<lambda>(p, c). case c of
       Running \<Rightarrow> []
     | Zombie st \<Rightarrow>
         [Printf (''background pid '' @ dec p @ '' is done: ''),
          Printf (if WIFEXITED st then ''exit value '' @ dec (WEXITSTATUS st) @ ''\<newline>''
                  else ''terminated by signal '' @ dec (WTERMSIG st) @ ''\<newline>'')])"

text \<open>Rules that run the definitions on concrete states.\<close>

lemma list_update_Cons_numeral [simp]: "(x # xs)[numeral v := y] = x # xs[numeral v - 1 := y]"
  by (simp add: numeral_eq_Suc)

lemmas run_simps =
  main_iteration_def read_line_def fgets_def emit_def parseInput_def strtok_def cstr_def strcspn_def
  parse_token_def expandPID_def arg_at_def executeCommand_def launch_background_def
  child_block_def child_stdin_def child_stdout_def waitpid_nohang_def changeDirectory_def
  displayStatus_def MAX_CMD_LEN_def MAX_ARGS_def NUL_def SIGKILL_def Let_def snprintf_def
  dec_def dec_nat.simps WIFSIGNALED_def WIFEXITED_def WEXITSTATUS_def WTERMSIG_def
  env0_def world0_def typed_def line_read_def
  checkBackgroundProcesses.simps killBackgroundProcesses.simps

section \<open>Properties\<close>

subsection \<open>PID expansion\<close>

text \<open>
  \<^verbatim>\<open>strstr\<close> finds nothing exactly when the needle does not occur, and the decimal
  form of a C \<^verbatim>\<open>int\<close> fits the 16-byte buffer \<^verbatim>\<open>pid_str\<close>.
\<close>

lemma strstr_None_iff:
  "strstr hay needle = None \<longleftrightarrow> \<not> (\<exists>u v. hay = u @ needle @ v)"
proof (induction hay)
  case Nil
  then show ?case by auto
next
  case (Cons c cs)
  show ?case
  proof (cases "take (length needle) (c # cs) = needle")
    case True
    then have "c # cs = [] @ needle @ drop (length needle) (c # cs)"
      by (metis append_Nil append_take_drop_id)
    then have "\<exists>u v. c # cs = u @ needle @ v" by blast
    with True show ?thesis by simp
  next
    case False
    have "(\<exists>u v. c # cs = u @ needle @ v) \<longleftrightarrow> (\<exists>u v. cs = u @ needle @ v)"
    proof
      assume "\<exists>u v. c # cs = u @ needle @ v"
      then obtain u v where uv: "c # cs = u @ needle @ v" by blast
      show "\<exists>u v. cs = u @ needle @ v"
      proof (cases u)
        case Nil
        with uv have "take (length needle) (c # cs) = needle" by simp
        with False show ?thesis by simp
      next
        case (Cons a u')
        with uv have "cs = u' @ needle @ v" by simp
        then show ?thesis by blast
      qed
    next
      assume "\<exists>u v. cs = u @ needle @ v"
      then obtain u v where "cs = u @ needle @ v" by blast
      then have "c # cs = (c # u) @ needle @ v" by simp
      then show "\<exists>u v. c # cs = u @ needle @ v" by blast
    qed
    with False Cons.IH show ?thesis by simp
  qed
qed

lemma length_dec_nat: "0 < k \<Longrightarrow> n < 10 ^ k \<Longrightarrow> length (dec_nat n) \<le> k"
proof (induction n arbitrary: k rule: dec_nat.induct)
  case (1 n)
  show ?case
  proof (cases "n < 10")
    case True
    with "1.prems" show ?thesis by (simp add: dec_nat.simps)
  next
    case False
    with "1.prems" obtain j where k: "k = Suc j" "0 < j"
      by (cases k; cases "k - 1") auto
    with "1.prems" have "n div 10 < 10 ^ j" by (simp add: less_mult_imp_div_less mult.commute)
    with "1.IH" [OF False k(2)] have "length (dec_nat (n div 10)) \<le> j" by simp
    with False k show ?thesis by (subst dec_nat.simps) simp
  qed
qed

lemma length_dec: "- (2 ^ 31) \<le> pid \<Longrightarrow> pid < 2 ^ 31 \<Longrightarrow> length (dec pid) \<le> 15"
proof -
  assume a: "- (2 ^ 31) \<le> pid" "pid < 2 ^ 31"
  have "nat \<bar>pid\<bar> < 10 ^ 10" using a by simp
  then have "length (dec_nat (nat \<bar>pid\<bar>)) \<le> 10" by (intro length_dec_nat) simp_all
  then show ?thesis by (auto simp: dec_def abs_if split: if_splits)
qed

text \<open>
  Claim C6. When the allocation succeeds, \<^verbatim>\<open>expandPID\<close> returns a token in which the
  marker \<^verbatim>\<open>$$\<close> does not occur unchanged, and for the token that is exactly the marker
  it returns the decimal string of the shell's process id (any value of the C type
  \<^verbatim>\<open>int\<close>, which is what \<^verbatim>\<open>getpid\<close> is stored in).
\<close>

theorem expandPID_identity_and_marker:
  "(\<not> (\<exists>u v. token = u @ ''$$'' @ v) \<longrightarrow> expandPID pid True token = ([], Ret (Some token))) \<and>
   (- (2 ^ 31) \<le> pid \<and> pid < 2 ^ 31 \<longrightarrow> expandPID pid True ''$$'' = ([], Ret (Some (dec pid))))"
proof (intro conjI impI)
  assume "\<not> (\<exists>u v. token = u @ ''$$'' @ v)"
  then have "strstr token ''$$'' = None" using strstr_None_iff [of token "''$$''"] by blast
  then show "expandPID pid True token = ([], Ret (Some token))" by (simp add: expandPID_def)
next
  assume "- (2 ^ 31) \<le> pid \<and> pid < 2 ^ 31"
  then have "length (dec pid) \<le> 15" by (simp add: length_dec)
  then show "expandPID pid True ''$$'' = ([], Ret (Some (dec pid)))"
    by (simp add: expandPID_def snprintf_def)
qed

theorem expandPID_identity_and_marker_witness:
  "expandPID 4242 True ''ls'' = ([], Ret (Some ''ls'')) \<and> expandPID 4242 True ''$$'' = ([], Ret (Some ''4242''))"
proof -
  have a: "\<not> (\<exists>u v. ''ls'' = u @ ''$$'' @ v)"
    using strstr_None_iff [of "''ls''" "''$$''"] by simp
  have b: "- (2 ^ 31) \<le> (4242::int) \<and> (4242::int) < 2 ^ 31" by simp
  have c: "dec 4242 = ''4242''" by (simp add: dec_def dec_nat.simps)
  from expandPID_identity_and_marker [of "''ls''" 4242] a b c show ?thesis by simp
qed

subsection \<open>The mode toggle\<close>

text \<open>
  Claim C9. Two consecutive runs of the SIGTSTP handler bring \<^verbatim>\<open>fgOnlyMode\<close> back to
  its value, from either mode (0 or 1, the only values the program stores). Starting from
  normal mode, with both \<^verbatim>\<open>write\<close> calls succeeding, the shell state after the two
  runs is the state before them with the entering notice and then the exiting notice
  appended to the trace: nothing else has changed. From foreground-only mode the same
  holds with the two notices in the other order.
\<close>

theorem handle_SIGTSTP_twice:
  "(fgOnlyMode w = 0 \<or> fgOnlyMode w = 1 \<longrightarrow>
      fgOnlyMode (handle_SIGTSTP s2 r2 (handle_SIGTSTP s1 r1 w)) = fgOnlyMode w) \<and>
   (fgOnlyMode w = 0 \<and> r1 \<noteq> - 1 \<and> r2 \<noteq> - 1 \<longrightarrow>
      handle_SIGTSTP s2 r2 (handle_SIGTSTP s1 r1 w) =
        w\<lparr>trace := trace w @
               [Write ''\<newline>Entering foreground-only mode (& is now ignored)\<newline>'',
                Write ''\<newline>Exiting foreground-only mode\<newline>'']\<rparr>) \<and>
   (fgOnlyMode w = 1 \<and> r1 \<noteq> - 1 \<and> r2 \<noteq> - 1 \<longrightarrow>
      handle_SIGTSTP s2 r2 (handle_SIGTSTP s1 r1 w) =
        w\<lparr>trace := trace w @
               [Write ''\<newline>Exiting foreground-only mode\<newline>'',
                Write ''\<newline>Entering foreground-only mode (& is now ignored)\<newline>'']\<rparr>)"
  by (auto simp: handle_SIGTSTP_def emit_def Let_def)

theorem handle_SIGTSTP_twice_witness:
  "fgOnlyMode (handle_SIGTSTP 20 50 (handle_SIGTSTP 20 50 world0)) = 0 \<and>
   trace (handle_SIGTSTP 20 50 (handle_SIGTSTP 20 50 world0)) =
       [Write ''\<newline>Entering foreground-only mode (& is now ignored)\<newline>'',
        Write ''\<newline>Exiting foreground-only mode\<newline>''] \<and>
   trace (handle_SIGTSTP 20 30 (handle_SIGTSTP 20 30 (world0\<lparr>fgOnlyMode := 1\<rparr>))) =
       [Write ''\<newline>Exiting foreground-only mode\<newline>'',
        Write ''\<newline>Entering foreground-only mode (& is now ignored)\<newline>'']"
  using handle_SIGTSTP_twice [of world0 20 50 20 50]
        handle_SIGTSTP_twice [of "world0\<lparr>fgOnlyMode := 1\<rparr>" 20 30 20 30]
  by (simp add: world0_def)

subsection \<open>The sweep of the Job Reaper\<close>

text \<open>
  \<open>reap\<close> finds nothing exactly when every child is running; when it finds a child,
  that child is the first terminated one and only it leaves the table.
\<close>

lemma reap_None_iff: "reap cs = None \<longleftrightarrow> (\<forall>(p, c) \<in> set cs. c = Running)"
  by (induction cs rule: reap.induct) (auto split: option.splits)

lemma reap_Some:
  assumes "reap cs = Some (p, st, cs')"
  shows "\<exists>pre post. cs = pre @ (p, Zombie st) # post \<and> cs' = pre @ post \<and> (\<forall>(q, c) \<in> set pre. c = Running)"
  using assms
proof (induction cs arbitrary: cs' rule: reap.induct)
  case 1
  then show ?case by simp
next
  case (2 p' st' cs)
  then have "(p', Zombie st') # cs = [] @ (p, Zombie st) # cs \<and> cs' = [] @ cs" by simp
  then show ?case by (metis empty_iff empty_set)
next
  case (3 p' cs)
  from "3.prems" obtain cs'' where r: "reap cs = Some (p, st, cs'')" and c: "cs' = (p', Running) # cs''"
    by (auto split: option.splits)
  from "3.IH" [OF r] obtain pre post where
    "cs = pre @ (p, Zombie st) # post" "cs'' = pre @ post" "\<forall>(q, c) \<in> set pre. c = Running" by blast
  with c have "(p', Running) # cs = ((p', Running) # pre) @ (p, Zombie st) # post \<and>
     cs' = ((p', Running) # pre) @ post \<and> (\<forall>(q, c) \<in> set ((p', Running) # pre). c = Running)" by simp
  then show ?case by blast
qed

lemma sweep:
  "(\<forall>(p, c) \<in> set (children w). 0 < p \<and> (\<forall>st. c = Zombie st \<longrightarrow> WIFEXITED st \<or> WIFSIGNALED st)) \<Longrightarrow>
   checkBackgroundProcesses w =
     w\<lparr>children := filter (\<lambda>(p, c). c = Running) (children w),
       trace := trace w @ (if fgOnlyMode w = 0 then concat (map sweep_report (children w)) else [])\<rparr>"
proof (induction w rule: checkBackgroundProcesses.induct)
  case (1 w)
  let ?ok = "\<lambda>cs. \<forall>(p, c) \<in> set cs. 0 < p \<and> (\<forall>st. c = Zombie st \<longrightarrow> WIFEXITED st \<or> WIFSIGNALED st)"
  show ?case
  proof (cases "reap (children w)")
    case None
    then have all: "\<forall>(p, c) \<in> set (children w). c = Running" by (simp add: reap_None_iff)
    then have f: "filter (\<lambda>(p, c). c = Running) (children w) = children w"
      by (auto intro: filter_True)
    from all have c: "concat (map sweep_report (children w)) = []"
      by (auto simp: sweep_report_def)
    from None show ?thesis
      by (subst checkBackgroundProcesses.simps) (simp add: waitpid_nohang_def f c)
  next
    case (Some r)
    then obtain p st cs' where r: "reap (children w) = Some (p, st, cs')" by (cases r) auto
    from reap_Some [OF r] obtain pre post where
      cs: "children w = pre @ (p, Zombie st) # post" and cs': "cs' = pre @ post"
      and pre: "\<forall>(q, c) \<in> set pre. c = Running" by blast
    from "1.prems" cs have p: "0 < p" and st: "WIFEXITED st \<or> WIFSIGNALED st" by auto
    from "1.prems" cs cs' have ok': "?ok cs'" by auto
    from pre have fpre: "filter (\<lambda>(p, c). c = Running) pre = pre" by (auto intro: filter_True)
    from pre have cpre: "concat (map sweep_report pre) = []" by (auto simp: sweep_report_def)
    let ?w1 = "w\<lparr>children := cs'\<rparr>"
    let ?w2 = "if fgOnlyMode ?w1 = 0 then
                 emit ([Printf (''background pid '' @ dec p @ '' is done: '')] @
                       (if WIFEXITED st
                        then [Printf (''exit value '' @ dec (WEXITSTATUS st) @ ''\<newline>'')]
                        else if WIFSIGNALED st
                        then [Printf (''terminated by signal '' @ dec (WTERMSIG st) @ ''\<newline>'')]
                        else [])) ?w1
               else ?w1"
    have wp: "waitpid_nohang w = (p, st, ?w1)" using r by (simp add: waitpid_nohang_def)
    have step: "checkBackgroundProcesses w = checkBackgroundProcesses ?w2"
      using wp p by (subst checkBackgroundProcesses.simps) simp
    have ch2: "children ?w2 = cs'" by (simp add: emit_def)
    have fg2: "fgOnlyMode ?w2 = fgOnlyMode w" by (simp add: emit_def)
    have IH: "checkBackgroundProcesses ?w2 =
       ?w2\<lparr>children := filter (\<lambda>(p, c). c = Running) (children ?w2),
            trace := trace ?w2 @ (if fgOnlyMode ?w2 = 0 then concat (map sweep_report (children ?w2)) else [])\<rparr>"
      apply (rule "1.IH" [OF wp [symmetric] refl p])
      using ok' ch2 by simp
    have rep: "sweep_report (p, Zombie st) =
        [Printf (''background pid '' @ dec p @ '' is done: '')] @
                       (if WIFEXITED st
                        then [Printf (''exit value '' @ dec (WEXITSTATUS st) @ ''\<newline>'')]
                        else if WIFSIGNALED st
                        then [Printf (''terminated by signal '' @ dec (WTERMSIG st) @ ''\<newline>'')]
                        else [])"
      using st by (auto simp: sweep_report_def)
    show ?thesis
      unfolding step IH
      by (simp add: emit_def cs cs' fpre cpre rep del: append.simps)
  qed
qed


text \<open>
  Claim C7. The kernel gives children positive pids, and a child reaped without
  \<^verbatim>\<open>WUNTRACED\<close> has exited or was killed by a signal. Then a sweep returns (the function
  is total) with every terminated child reaped and the running ones untouched; it prints
  the report of each reaped child, in the order the kernel hands them out, when
  \<^verbatim>\<open>fgOnlyMode\<close> is 0 and prints nothing otherwise; nothing else changes. When no child
  has terminated the sweep changes nothing at all.
\<close>

theorem checkBackgroundProcesses_sweep:
  "(\<forall>(p, c) \<in> set (children w). 0 < p \<and> (\<forall>st. c = Zombie st \<longrightarrow> WIFEXITED st \<or> WIFSIGNALED st)) \<longrightarrow>
     checkBackgroundProcesses w =
       w\<lparr>children := filter (\<lambda>(p, c). c = Running) (children w),
         trace := trace w @ (if fgOnlyMode w = 0 then concat (map sweep_report (children w)) else [])\<rparr> \<and>
     ((\<forall>(p, c) \<in> set (children w). c = Running) \<longrightarrow> checkBackgroundProcesses w = w)"
proof (intro impI conjI)
  assume ok: "\<forall>(p, c) \<in> set (children w). 0 < p \<and> (\<forall>st. c = Zombie st \<longrightarrow> WIFEXITED st \<or> WIFSIGNALED st)"
  then show eq: "checkBackgroundProcesses w =
       w\<lparr>children := filter (\<lambda>(p, c). c = Running) (children w),
         trace := trace w @ (if fgOnlyMode w = 0 then concat (map sweep_report (children w)) else [])\<rparr>"
    by (rule sweep)
  assume run: "\<forall>(p, c) \<in> set (children w). c = Running"
  then have "filter (\<lambda>(p, c). c = Running) (children w) = children w"
    by (auto intro: filter_True)
  moreover from run have "concat (map sweep_report (children w)) = []"
    by (auto simp: sweep_report_def)
  ultimately show "checkBackgroundProcesses w = w" using eq by simp
qed

theorem checkBackgroundProcesses_sweep_witness:
  "checkBackgroundProcesses (world0\<lparr>children := [(10, Running), (11, Zombie 0), (12, Zombie 9)]\<rparr>) =
     world0\<lparr>children := [(10, Running)],
            trace := [Printf ''background pid 11 is done: '', Printf ''exit value 0\<newline>'',
                      Printf ''background pid 12 is done: '', Printf ''terminated by signal 9\<newline>'']\<rparr> \<and>
   checkBackgroundProcesses (world0\<lparr>children := [(10, Running)]\<rparr>) = world0\<lparr>children := [(10, Running)]\<rparr>"
  using checkBackgroundProcesses_sweep [of "world0\<lparr>children := [(10, Running), (11, Zombie 0), (12, Zombie 9)]\<rparr>"]
        checkBackgroundProcesses_sweep [of "world0\<lparr>children := [(10, Running)]\<rparr>"]
  by (simp add: world0_def sweep_report_def WIFEXITED_def WIFSIGNALED_def WTERMSIG_def
        WEXITSTATUS_def dec_def dec_nat.simps)

subsection \<open>The background flag\<close>

text \<open>
  \<^verbatim>\<open>strtok\<close> touches only the buffer and its saved position; \<^verbatim>\<open>expandPID\<close> reports
  only when it ends the process. The parser never writes \<^verbatim>\<open>fgOnlyMode\<close>, and it sets
  \<^verbatim>\<open>background\<close> to 1 only in normal mode.
\<close>

lemma strtok_frame:
  assumes "strtok str delim w = (r, w')"
  shows "fgOnlyMode w' = fgOnlyMode w" "background w' = background w" "inputFile w' = inputFile w"
    "outputFile w' = outputFile w" "trace w' = trace w" "lastStatus w' = lastStatus w"
    "children w' = children w" "stdin w' = stdin w"
  using assms by (auto simp: strtok_def Let_def split: if_splits)

lemma strtok_mode:
  "strtok str delim w = (r, w') \<Longrightarrow> fgOnlyMode w' = fgOnlyMode w \<and> background w' = background w"
  by (auto simp: strtok_def Let_def split: if_splits)

lemma expandPID_Exit: "expandPID pid ok tok = (evs, Exit c) \<Longrightarrow> c = 1 \<and> evs = [Perror ''malloc'']"
  by (auto simp: expandPID_def Let_def split: option.splits if_splits)

lemma expandPID_Ret: "expandPID pid ok tok = (evs, Ret x) \<Longrightarrow> evs = []"
  by (auto simp: expandPID_def Let_def split: option.splits if_splits)

lemma parse_token_background:
  assumes "parse_token e t args w = (r, w')"
  shows "fgOnlyMode w' = fgOnlyMode w \<and>
         (background w' = background w \<or> background w' = 1 \<and> fgOnlyMode w = 0)"
  using assms
  by (auto simp: parse_token_def emit_def split: if_splits prod.splits call.splits
           dest!: strtok_mode)

lemma parse_loop_background:
  "parse_loop e token args w = (r, w') \<Longrightarrow>
     fgOnlyMode w' = fgOnlyMode w \<and>
     (background w' = background w \<or> background w' = 1 \<and> fgOnlyMode w = 0)"
proof (induction e token args w rule: parse_loop.induct)
  case (1 e token args w)
  show ?case
  proof (cases token)
    case None
    with "1.prems" show ?thesis by simp
  next
    case (Some t)
    show ?thesis
    proof (cases "length args < MAX_ARGS - 1")
      case False
      with Some "1.prems" show ?thesis by simp
    next
      case True
      obtain r1 w1 where pt: "parse_token e t args w = (r1, w1)" by (cases "parse_token e t args w")
      note b1 = parse_token_background [OF pt]
      show ?thesis
      proof (cases r1)
        case (Exit c)
        with Some True pt "1.prems" have "w' = w1" by simp
        with b1 show ?thesis by simp
      next
        case (Ret x)
        obtain nxt args' where x: "x = (nxt, args')" by (cases x)
        with Some True pt Ret "1.prems" have "parse_loop e nxt args' w1 = (r, w')" by simp
        from "1.IH" [OF Some _ pt [symmetric] Ret x [symmetric] this] True
        have "fgOnlyMode w' = fgOnlyMode w1 \<and>
              (background w' = background w1 \<or> background w' = 1 \<and> fgOnlyMode w1 = 0)" by simp
        with b1 show ?thesis by auto
      qed
    qed
  qed
qed

lemma parseInput_background:
  assumes "parseInput e w = (r, w')"
  shows "fgOnlyMode w' = fgOnlyMode w \<and> (background w' = 0 \<or> background w' = 1 \<and> fgOnlyMode w = 0)"
proof -
  obtain token w1 where st: "strtok (Some 0) '' '' (w\<lparr>background := 0\<rparr>) = (token, w1)"
    by (cases "strtok (Some 0) '' '' (w\<lparr>background := 0\<rparr>)")
  obtain r2 w2 where pl: "parse_loop e token [] w1 = (r2, w2)" by (cases "parse_loop e token [] w1")
  from assms st pl have "w' = w2" by (auto simp: parseInput_def split: call.splits)
  moreover from strtok_frame(1,2) [OF st] have "fgOnlyMode w1 = fgOnlyMode w" "background w1 = 0" by simp_all
  moreover note parse_loop_background [OF pl]
  ultimately show ?thesis by auto
qed

text \<open>
  Claim C5. In foreground-only mode (\<^verbatim>\<open>fgOnlyMode\<close> is 1 at dispatch)
  \<^verbatim>\<open>executeCommand\<close> acts on a background flag that is 0: it does exactly what it does
  for a request without \<^verbatim>\<open>&\<close>, whatever was requested. And a line gives
  \<^verbatim>\<open>background\<close> a nonzero value only when \<^verbatim>\<open>fgOnlyMode\<close> is 0 while it is parsed.
\<close>

theorem background_forced_false:
  "(fgOnlyMode w = 1 \<longrightarrow>
      launch_background w bg = 0 \<and>
      executeCommand e args inFile outFile bg w = executeCommand e args inFile outFile 0 w) \<and>
   (parseInput e w = (r, w') \<and> background w' \<noteq> 0 \<longrightarrow> fgOnlyMode w = 0)"
  using parseInput_background [of e w r w']
  by (auto simp: executeCommand_def launch_background_def)

theorem background_forced_false_witness:
  "launch_background (world0\<lparr>fgOnlyMode := 1\<rparr>) 1 = 0 \<and>
   executeCommand env0 [Some ''sleep'', Some ''5''] None None 1 (world0\<lparr>fgOnlyMode := 1\<rparr>) =
     executeCommand env0 [Some ''sleep'', Some ''5''] None None 0 (world0\<lparr>fgOnlyMode := 1\<rparr>) \<and>
   background (snd (parseInput env0 (line_read ''sleep 5 &''))) = 1 \<and>
   fgOnlyMode (line_read ''sleep 5 &'') = 0"
proof -
  have m: "fgOnlyMode (world0\<lparr>fgOnlyMode := 1\<rparr>) = 1" by simp
  have b: "background (snd (parseInput env0 (line_read ''sleep 5 &''))) = 1"
    by (simp add: run_simps)
  from background_forced_false [of "world0\<lparr>fgOnlyMode := 1\<rparr>" 1 env0 "[Some ''sleep'', Some ''5'']" None None]
       m
  have a: "launch_background (world0\<lparr>fgOnlyMode := 1\<rparr>) 1 = 0 \<and>
     executeCommand env0 [Some ''sleep'', Some ''5''] None None 1 (world0\<lparr>fgOnlyMode := 1\<rparr>) =
     executeCommand env0 [Some ''sleep'', Some ''5''] None None 0 (world0\<lparr>fgOnlyMode := 1\<rparr>)"
    by blast
  from background_forced_false [where e = env0 and w = "line_read ''sleep 5 &''"
         and r = "fst (parseInput env0 (line_read ''sleep 5 &''))"
         and w' = "snd (parseInput env0 (line_read ''sleep 5 &''))"]
       b
  have "fgOnlyMode (line_read ''sleep 5 &'') = 0" by simp
  with a b show ?thesis by simp
qed


subsection \<open>How the shell process ends\<close>

text \<open>
  The parser appends to the trace only when \<^verbatim>\<open>expandPID\<close> ends the process, and then
  the last event is the report of the failed \<^verbatim>\<open>malloc\<close>; \<^verbatim>\<open>executeCommand\<close> ends
  the shell only when \<^verbatim>\<open>fork\<close> fails.
\<close>

lemma strtok_trace: "strtok str delim w = (r, w') \<Longrightarrow> trace w' = trace w"
  by (auto simp: strtok_def Let_def split: if_splits)

lemma parse_token_trace:
  assumes "parse_token e t args w = (r, w')"
  shows "case r of Exit c \<Rightarrow> c = 1 \<and> trace w' = trace w @ [Perror ''malloc''] | Ret x \<Rightarrow> trace w' = trace w"
  using assms
  by (auto simp: parse_token_def emit_def split: if_splits prod.splits call.splits
           dest!: strtok_trace expandPID_Exit expandPID_Ret)

lemma parse_loop_trace:
  "parse_loop e token args w = (r, w') \<Longrightarrow>
     (case r of Exit c \<Rightarrow> c = 1 \<and> trace w' = trace w @ [Perror ''malloc''] | Ret x \<Rightarrow> trace w' = trace w)"
proof (induction e token args w rule: parse_loop.induct)
  case (1 e token args w)
  show ?case
  proof (cases token)
    case None
    with "1.prems" show ?thesis by auto
  next
    case (Some t)
    show ?thesis
    proof (cases "length args < MAX_ARGS - 1")
      case False
      with Some "1.prems" show ?thesis by auto
    next
      case True
      obtain r1 w1 where pt: "parse_token e t args w = (r1, w1)" by (cases "parse_token e t args w")
      note b1 = parse_token_trace [OF pt]
      show ?thesis
      proof (cases r1)
        case (Exit c)
        with Some True pt "1.prems" have "w' = w1" "r = Exit c" by simp_all
        with b1 Exit show ?thesis by simp
      next
        case (Ret x)
        obtain nxt args' where x: "x = (nxt, args')" by (cases x)
        with Some True pt Ret "1.prems" have "parse_loop e nxt args' w1 = (r, w')" by simp
        from "1.IH" [OF Some _ pt [symmetric] Ret x [symmetric] this] True
        have "case r of Exit c \<Rightarrow> c = 1 \<and> trace w' = trace w1 @ [Perror ''malloc''] | Ret x \<Rightarrow> trace w' = trace w1"
          by simp
        with b1 Ret show ?thesis by (cases r) auto
      qed
    qed
  qed
qed

lemma parseInput_trace:
  assumes "parseInput e w = (r, w')"
  shows "case r of Exit c \<Rightarrow> c = 1 \<and> trace w' = trace w @ [Perror ''malloc''] | Ret x \<Rightarrow> trace w' = trace w"
proof -
  obtain token w1 where st: "strtok (Some 0) '' '' (w\<lparr>background := 0\<rparr>) = (token, w1)"
    by (cases "strtok (Some 0) '' '' (w\<lparr>background := 0\<rparr>)")
  obtain r2 w2 where pl: "parse_loop e token [] w1 = (r2, w2)" by (cases "parse_loop e token [] w1")
  from strtok_trace [OF st] have t1: "trace w1 = trace w" by simp
  from assms st pl have "w' = w2" "(\<exists>c. r = Exit c \<and> r2 = Exit c) \<or> (\<exists>x y. r = Ret x \<and> r2 = Ret y)"
    by (auto simp: parseInput_def split: call.splits)
  with parse_loop_trace [OF pl] t1 show ?thesis by auto
qed

lemma child_block_not_Exits: "child_block e args inFile outFile bg w \<noteq> Exits c w'"
  by (auto simp: child_block_def split: prod.splits call.splits)

lemma executeCommand_Exits:
  "executeCommand e args inFile outFile bg w = Exits c w' \<Longrightarrow>
     c = 1 \<and> fork_ret e = - 1 \<and> trace w' = trace w @ [Perror ''fork'']"
  by (auto simp: executeCommand_def Let_def emit_def child_block_not_Exits split: if_splits)

lemma fgets_trace: "fgets n w = (b, w') \<Longrightarrow> trace w' = trace w"
  by (auto simp: fgets_def Let_def split: if_splits)

lemma read_line_trace:
  "read_line w = (b, w') \<Longrightarrow> last (trace w') = Printf '': ''"
proof -
  assume a: "read_line w = (b, w')"
  let ?w0 = "emit [Printf '': ''] (checkBackgroundProcesses w)"
  obtain b1 w1 where fg: "fgets MAX_CMD_LEN ?w0 = (b1, w1)" by (cases "fgets MAX_CMD_LEN ?w0")
  from fgets_trace [OF fg] have "last (trace w1) = Printf '': ''" by (simp add: emit_def)
  with a fg show ?thesis by (cases b1) (auto simp: read_line_def)
qed

lemma main_iteration_Exits:
  assumes "main_iteration e w = Exits c w'"
  shows "c = 0 \<and> last (trace w') = Printf '': '' \<or>
         c = 1 \<and> (last (trace w') = Perror ''malloc'' \<or> last (trace w') = Perror ''fork'')"
proof -
  obtain b w1 where rl: "read_line w = (b, w1)" by (cases "read_line w")
  from read_line_trace [OF rl] have l1: "last (trace w1) = Printf '': ''" .
  from assms rl have b: "b" by (cases b) (auto simp: main_iteration_def)
  obtain r w2 where p: "parseInput e w1 = (r, w2)" by (cases "parseInput e w1")
  note pt = parseInput_trace [OF p]
  show ?thesis
  proof (cases r)
    case (Exit c')
    with assms rl b p have "c = c'" "w' = w2" by (auto simp: main_iteration_def)
    with pt Exit show ?thesis by simp
  next
    case (Ret x)
    obtain args valid where x: "x = (args, valid)" by (cases x)
    from pt Ret l1 have l2: "last (trace w2) = Printf '': ''" by simp
    show ?thesis
    proof (cases "arg_at args 0 = Some ''exit''")
      case True
      with assms rl b p Ret x have "c = 0 \<and> w' = w2"
        by (auto simp: main_iteration_def split: if_splits)
      with l2 show ?thesis by simp
    next
      case False
      with assms rl b p Ret x
      have "executeCommand e args (inputFile w2) (outputFile w2) (background w2) w2 = Exits c w'"
        by (auto simp: main_iteration_def split: if_splits outcome.splits)
      from executeCommand_Exits [OF this] show ?thesis by simp
    qed
  qed
qed

lemma main_loop_Exits:
  "main_loop es w = Exits c w' \<Longrightarrow>
     c = 0 \<and> last (trace w') = Printf '': '' \<or>
     c = 1 \<and> (last (trace w') = Perror ''malloc'' \<or> last (trace w') = Perror ''fork'')"
proof (induction es arbitrary: w)
  case Nil
  then show ?case by simp
next
  case (Cons e es)
  show ?case
  proof (cases "main_iteration e w")
    case (Returns w1)
    with Cons.prems have "main_loop es w1 = Exits c w'" by simp
    then show ?thesis by (rule Cons.IH)
  next
    case (Exits c1 w1)
    with Cons.prems have "main_iteration e w = Exits c w'" by simp
    then show ?thesis by (rule main_iteration_Exits)
  next
    case (Child_exits c1 w1)
    with Cons.prems show ?thesis by simp
  next
    case (Child_execs a w1)
    with Cons.prems show ?thesis by simp
  qed
qed

text \<open>
  Claim C8 says that the shell's exit code is 0 on every terminating path. It is 1 when
  \<^verbatim>\<open>fork\<close> fails for the command \<^verbatim>\<open>ls\<close>, and when the allocation for the second
  argument of \<^verbatim>\<open>echo $$\<close> fails.
\<close>

theorem shell_exit_code_counterexample:
  "exit_code (main_iteration (env0\<lparr>fork_ret := - 1\<rparr>) (typed ''ls\<newline>'')) = Some 1 \<and>
   exit_code (main_iteration (env0\<lparr>alloc_ok := (\<lambda>k. k \<noteq> 1)\<rparr>) (typed ''echo $$\<newline>'')) = Some 1"
  by (simp add: run_simps)

text \<open>
  Claim C8, amended. Whenever the shell process ends, after any number of iterations of
  the main loop, either its exit code is 0 and nothing was reported since the last prompt
  (the \<^verbatim>\<open>exit\<close> builtin), or its exit code is 1 and the last thing it did was to report
  the failed \<^verbatim>\<open>malloc\<close> or the failed \<^verbatim>\<open>fork\<close>. A failed \<^verbatim>\<open>fork\<close> always ends
  the shell with code 1, and so does a failed allocation for a token that contains the
  marker.
\<close>

theorem shell_exit_codes:
  "(main_loop es w = Exits c w' \<longrightarrow>
      c = 0 \<and> last (trace w') = Printf '': '' \<or>
      c = 1 \<and> (last (trace w') = Perror ''malloc'' \<or> last (trace w') = Perror ''fork'')) \<and>
   (fork_ret e = - 1 \<longrightarrow>
      executeCommand e args inFile outFile bg w = Exits 1 (emit [Perror ''fork''] w)) \<and>
   (strstr token ''$$'' \<noteq> None \<longrightarrow> expandPID pid False token = ([Perror ''malloc''], Exit 1))"
proof (intro conjI impI)
  assume "main_loop es w = Exits c w'"
  then show "c = 0 \<and> last (trace w') = Printf '': '' \<or>
      c = 1 \<and> (last (trace w') = Perror ''malloc'' \<or> last (trace w') = Perror ''fork'')"
    by (rule main_loop_Exits)
next
  assume "fork_ret e = - 1"
  then show "executeCommand e args inFile outFile bg w = Exits 1 (emit [Perror ''fork''] w)"
    by (simp add: executeCommand_def)
next
  assume "strstr token ''$$'' \<noteq> None"
  then show "expandPID pid False token = ([Perror ''malloc''], Exit 1)"
    by (auto simp: expandPID_def Let_def)
qed

theorem shell_exit_codes_witness:
  "main_loop [env0] (typed ''exit\<newline>'') =
     Exits 0 (final_world (main_loop [env0] (typed ''exit\<newline>''))) \<and>
   last (trace (final_world (main_loop [env0] (typed ''exit\<newline>'')))) = Printf '': '' \<and>
   executeCommand (env0\<lparr>fork_ret := - 1\<rparr>) [Some ''ls''] None None 0 world0 =
     Exits 1 (emit [Perror ''fork''] world0) \<and>
   expandPID 4242 False ''$$'' = ([Perror ''malloc''], Exit 1)"
proof -
  have h: "main_loop [env0] (typed ''exit\<newline>'') =
     Exits 0 (final_world (main_loop [env0] (typed ''exit\<newline>'')))"
    by (simp add: run_simps)
  have f: "fork_ret (env0\<lparr>fork_ret := - 1\<rparr>) = - 1" by simp
  have m: "strstr ''$$'' ''$$'' \<noteq> None" by simp
  from shell_exit_codes [where es = "[env0]" and w = "typed ''exit\<newline>''" and c = 0
         and w' = "final_world (main_loop [env0] (typed ''exit\<newline>''))"] h
  have a: "last (trace (final_world (main_loop [env0] (typed ''exit\<newline>'')))) = Printf '': ''"
    by simp
  from shell_exit_codes [where e = "env0\<lparr>fork_ret := - 1\<rparr>" and args = "[Some ''ls'']"
         and inFile = None and outFile = None and bg = 0 and w = world0] f
  have b: "executeCommand (env0\<lparr>fork_ret := - 1\<rparr>) [Some ''ls''] None None 0 world0 =
     Exits 1 (emit [Perror ''fork''] world0)" by blast
  from shell_exit_codes [where token = "''$$''" and pid = 4242] m
  have c: "expandPID 4242 False ''$$'' = ([Perror ''malloc''], Exit 1)" by blast
  from h a b c show ?thesis by simp
qed

subsection \<open>The builtins as \<^verbatim>\<open>main\<close> runs them\<close>

text \<open>
  Claim C1 says that \<^verbatim>\<open>status\<close> reports the terminating signal of a foreground
  process that was killed by a signal, and never an exit value for it. In \<^verbatim>\<open>main\<close>
  the builtin prints \<^verbatim>\<open>exit value\<close> whatever the status is: after \<^verbatim>\<open>sleep 100\<close> is
  killed by signal 2, \<^verbatim>\<open>status\<close> prints \<^verbatim>\<open>exit value 0\<close>. The function
  \<^verbatim>\<open>displayStatus\<close>, which \<^verbatim>\<open>main\<close> does not call, prints \<^verbatim>\<open>terminated by signal 2\<close>
  for the same status.
\<close>

theorem status_reports_exit_value_after_signal:
  "trace (final_world (main_loop [env0\<lparr>wait_status := 2\<rparr>, env0] (typed ''sleep 100\<newline>status\<newline>''))) =
     [Printf '': '', Printf ''terminated by signal 2\<newline>'', Printf '': '', Printf ''exit value 0\<newline>''] \<and>
   trace (displayStatus (world0\<lparr>lastStatus := 2\<rparr>)) = [Printf ''terminated by signal 2\<newline>'']"
  by (simp add: run_simps)

text \<open>
  Claim C2 says that \<^verbatim>\<open>exit\<close> runs the shutdown sweep before the process ends. With a
  background child 4242 still running, the iteration that reads \<^verbatim>\<open>exit\<close> ends the
  shell with code 0 after the prompt alone: no signal was sent and the child is still in
  the table. \<^verbatim>\<open>main\<close> never calls \<^verbatim>\<open>killBackgroundProcesses\<close>.
\<close>

theorem exit_sends_no_kill:
  "main_iteration env0 (typed ''exit\<newline>''\<lparr>children := [(4242, Running)]\<rparr>) =
     Exits 0 (final_world (main_iteration env0 (typed ''exit\<newline>''\<lparr>children := [(4242, Running)]\<rparr>))) \<and>
   trace (final_world (main_iteration env0 (typed ''exit\<newline>''\<lparr>children := [(4242, Running)]\<rparr>))) = [Printf '': ''] \<and>
   children (final_world (main_iteration env0 (typed ''exit\<newline>''\<lparr>children := [(4242, Running)]\<rparr>))) = [(4242, Running)]"
  by (simp add: run_simps)

text \<open>
  Claim C3 says that no token is lost when \<^verbatim>\<open>&\<close> is not the last token. The test for
  a final \<^verbatim>\<open>&\<close> calls \<^verbatim>\<open>strtok\<close>, which consumes the token after it: the line
  \<^verbatim>\<open>echo & foo bar\<close> gives the arguments \<^verbatim>\<open>echo\<close>, \<^verbatim>\<open>&\<close>, \<^verbatim>\<open>bar\<close>, and these
  are what the child executes.
\<close>

theorem ampersand_swallows_next_token:
  "fst (parseInput env0 (line_read ''echo & foo bar'')) = Ret ([Some ''echo'', Some ''&'', Some ''bar''], 1) \<and>
   main_iteration (env0\<lparr>fork_ret := 0\<rparr>) (typed ''echo & foo bar\<newline>'') =
     Child_execs [''echo'', ''&'', ''bar'']
       (final_world (main_iteration (env0\<lparr>fork_ret := 0\<rparr>) (typed ''echo & foo bar\<newline>'')))"
  by (simp add: run_simps)

text \<open>
  Claim C4 says that a failed directory change is reported. In \<^verbatim>\<open>main\<close> the builtin
  calls \<^verbatim>\<open>chdir\<close> and ignores what it returns: when \<^verbatim>\<open>chdir\<close> fails for
  \<^verbatim>\<open>cd /nonexistent\<close> nothing is reported. The function \<^verbatim>\<open>changeDirectory\<close>, which
  \<^verbatim>\<open>main\<close> does not call, reports the failure.
\<close>

theorem cd_failure_not_reported:
  "trace (final_world (main_iteration (env0\<lparr>chdir_ret := (\<lambda>path. - 1)\<rparr>) (typed ''cd /nonexistent\<newline>''))) =
     [Printf '': '', Chdir (Some ''/nonexistent'')] \<and>
   trace (changeDirectory (env0\<lparr>chdir_ret := (\<lambda>path. - 1)\<rparr>) [Some ''cd'', Some ''/nonexistent''] world0) =
     [Chdir (Some ''/nonexistent''), Perror ''smallsh'']"
  by (simp add: run_simps)


subsection \<open>Redirection pointers across lines\<close>

text \<open>
  Each call of \<^verbatim>\<open>strtok\<close> returns the next token of the rest of the line, as a pointer
  to a string that is that token, and leaves the tokens after it to come.
\<close>

lemma line_tokens_skip: "line_tokens (dropWhile (\<lambda>c. c = CHR '' '') s) = line_tokens s"
  by (subst line_tokens.simps, subst (2) line_tokens.simps) simp

lemma line_tokens_Nil:
  assumes "dropWhile (\<lambda>c. c = CHR '' '') s = []"
  shows "line_tokens s = []"
  by (subst line_tokens.simps) (simp only: assms list.case)

lemma line_tokens_Cons:
  assumes "C \<noteq> []" and "dropWhile (\<lambda>c. c = CHR '' '') s = C"
  shows "line_tokens s = takeWhile (\<lambda>c. c \<noteq> CHR '' '') C # line_tokens (dropWhile (\<lambda>c. c \<noteq> CHR '' '') C)"
proof -
  from assms(1) obtain c cs where C: "C = c # cs" by (cases C) auto
  show ?thesis by (subst line_tokens.simps) (simp only: assms(2) C list.case)
qed

lemma dropWhile_takeWhile_commute:
  "(\<And>x. Q x \<Longrightarrow> P x) \<Longrightarrow> dropWhile Q (takeWhile P xs) = takeWhile P (dropWhile Q xs)"
  by (induction xs) auto

lemma length_takeWhile_mono:
  "(\<And>x. Q x \<Longrightarrow> P x) \<Longrightarrow> length (takeWhile Q xs) \<le> length (takeWhile P xs)"
  by (induction xs) auto

lemma takeWhile_drop: "k \<le> length (takeWhile P xs) \<Longrightarrow> takeWhile P (drop k xs) = drop k (takeWhile P xs)"
proof (induction xs arbitrary: k)
  case Nil
  then show ?case by simp
next
  case (Cons x xs)
  then show ?case by (cases k) (auto split: if_splits)
qed

lemma takeWhile_update: "\<not> P x \<Longrightarrow> k \<le> length (takeWhile P xs) \<Longrightarrow> takeWhile P (xs[k := x]) = take k (takeWhile P xs)"
proof (induction xs arbitrary: k)
  case Nil
  then show ?case by simp
next
  case (Cons y ys)
  then show ?case by (cases k) (auto split: if_splits)
qed

lemma cstr_drop: "k \<le> length (cstr buf p) \<Longrightarrow> cstr buf (p + k) = drop k (cstr buf p)"
  unfolding cstr_def by (simp add: takeWhile_drop [symmetric] add.commute)


lemma space_not_NUL: "CHR '' '' \<noteq> NUL"
  by (simp add: NUL_def)

lemma line_tokens_space: "line_tokens (CHR '' '' # s) = line_tokens s"
proof -
  have "line_tokens (CHR '' '' # s) = line_tokens (dropWhile (\<lambda>c. c = CHR '' '') (CHR '' '' # s))"
    by (simp only: line_tokens_skip)
  also have "\<dots> = line_tokens (dropWhile (\<lambda>c. c = CHR '' '') s)" by simp
  also have "\<dots> = line_tokens s" by (simp only: line_tokens_skip)
  finally show ?thesis .
qed

lemma strtok_tokens:
  assumes st: "strtok str '' '' w = (r, w')"
  shows "line_tokens (cstr (input w) (case str of Some p \<Rightarrow> p | None \<Rightarrow> olds w)) =
           (case r of None \<Rightarrow> [] | Some t \<Rightarrow> [cstr (input w') t]) @
           line_tokens (cstr (input w') (olds w'))"
proof -
  let ?isd = "\<lambda>c. c = CHR '' ''"
  let ?nd = "\<lambda>c. c \<noteq> CHR '' ''"
  let ?nn = "\<lambda>c. c \<noteq> NUL"
  define buf where "buf = input w"
  define s0 where "s0 = (case str of Some p \<Rightarrow> p | None \<Rightarrow> olds w)"
  define s where "s = s0 + length (takeWhile ?isd (drop s0 buf))"
  define C where "C = cstr buf s"
  define k where "k = length (takeWhile ?nd C)"
  define e where "e = s + k"
  have imp: "\<And>x. ?isd x \<Longrightarrow> ?nn x" using space_not_NUL by simp
  have C_eq: "C = dropWhile ?isd (cstr buf s0)"
  proof -
    have "dropWhile ?isd (cstr buf s0) = takeWhile ?nn (dropWhile ?isd (drop s0 buf))"
      unfolding cstr_def by (rule dropWhile_takeWhile_commute) (rule imp)
    also have "\<dots> = takeWhile ?nn (drop (length (takeWhile ?isd (drop s0 buf))) (drop s0 buf))"
      by (simp only: dropWhile_eq_drop [symmetric])
    also have "\<dots> = takeWhile ?nn (drop s buf)"
      unfolding s_def by (simp only: drop_drop add.commute)
    finally show ?thesis by (simp add: C_def cstr_def)
  qed
  have st': "(if C = [] then (None, w\<lparr>olds := s\<rparr>)
       else if e < length buf \<and> buf ! e = CHR '' ''
            then (Some s, w\<lparr>input := buf[e := NUL], olds := e + 1\<rparr>)
            else (Some s, w\<lparr>olds := e\<rparr>)) = (r, w')"
    using st unfolding e_def k_def C_def s_def s0_def buf_def
    by (simp add: strtok_def Let_def cong: if_cong)
  show ?thesis
  proof (cases "C = []")
    case True
    with st' have r: "r = None" "w' = w\<lparr>olds := s\<rparr>" by simp_all
    from True C_eq have "line_tokens (cstr buf s0) = []" by (intro line_tokens_Nil) simp
    moreover have "line_tokens (cstr (input w') (olds w')) = []"
      using True r by (simp add: buf_def [symmetric] C_def [symmetric] line_tokens_Nil)
    ultimately show ?thesis using r by (simp add: buf_def s0_def)
  next
    case False
    have lt: "line_tokens (cstr buf s0) = takeWhile ?nd C # line_tokens (dropWhile ?nd C)"
      using False C_eq by (intro line_tokens_Cons) simp_all
    have kC: "k \<le> length C" unfolding k_def by (rule length_takeWhile_le)
    have tok: "takeWhile ?nd C = take k C" unfolding k_def by (rule takeWhile_eq_take)
    have rest: "dropWhile ?nd C = drop k C" unfolding k_def by (rule dropWhile_eq_drop)
    have ce: "cstr buf e = drop k C" unfolding e_def C_def using kC unfolding C_def by (rule cstr_drop)
    show ?thesis
    proof (cases "e < length buf \<and> buf ! e = CHR '' ''")
      case True
      with False st' have r: "r = Some s" "w' = w\<lparr>input := buf[e := NUL], olds := e + 1\<rparr>" by simp_all
      have "cstr (buf[e := NUL]) s = takeWhile ?nn ((drop s buf)[k := NUL])"
        unfolding cstr_def e_def by (simp add: drop_update_swap)
      also have "\<dots> = take k (takeWhile ?nn (drop s buf))"
        using kC by (intro takeWhile_update) (simp_all add: C_def cstr_def)
      also have "\<dots> = takeWhile ?nd C" using tok by (simp add: C_def cstr_def)
      finally have i: "cstr (buf[e := NUL]) s = takeWhile ?nd C" .
      have "drop e buf = CHR '' '' # drop (Suc e) buf"
        using True Cons_nth_drop_Suc [of e buf] by simp
      then have "cstr buf e = CHR '' '' # cstr buf (Suc e)"
        using space_not_NUL by (simp add: cstr_def)
      then have "drop k C = CHR '' '' # cstr buf (Suc e)" using ce by simp
      then have "line_tokens (dropWhile ?nd C) = line_tokens (cstr buf (Suc e))"
        by (simp add: rest line_tokens_space)
      moreover have "cstr (buf[e := NUL]) (Suc e) = cstr buf (Suc e)" by (simp add: cstr_def)
      ultimately show ?thesis using r i lt by (simp add: buf_def [symmetric] s0_def [symmetric])
    next
      case F: False
      with False st' have r: "r = Some s" "w' = w\<lparr>olds := e\<rparr>" by simp_all
      have "k = length C"
      proof (rule ccontr)
        assume "k \<noteq> length C"
        with kC have klt: "k < length C" by simp
        then have "\<not> ?nd (C ! k)" unfolding k_def by (rule nth_length_takeWhile)
        then have "C ! k = CHR '' ''" by simp
        moreover have "C ! k = drop s buf ! k"
          using klt unfolding C_def cstr_def by (rule takeWhile_nth)
        moreover have "length C \<le> length (drop s buf)"
          unfolding C_def cstr_def by (rule length_takeWhile_le)
        with klt have "s + k < length buf" by simp
        ultimately have "e < length buf \<and> buf ! e = CHR '' ''" by (simp add: e_def)
        with F show False by simp
      qed
      with tok have "takeWhile ?nd C = C" by simp
      with r lt rest ce show ?thesis
        by (simp add: buf_def [symmetric] s0_def [symmetric] C_def [symmetric])
    qed
  qed
qed


lemma strtok_next_upcoming:
  "strtok None '' '' w = (r, w') \<Longrightarrow> upcoming r w' = line_tokens (cstr (input w) (olds w))"
  using strtok_tokens [of None w r w'] by (simp add: upcoming_def)

lemma strtok_redirect:
  "strtok str delim w = (r, w') \<Longrightarrow> inputFile w' = inputFile w \<and> outputFile w' = outputFile w"
  by (auto simp: strtok_def Let_def split: if_splits)

lemma set_upcoming_rest: "set (line_tokens (cstr (input w) (olds w))) \<subseteq> set (upcoming token w)"
  by (simp add: upcoming_def)

lemma parse_token_upcoming:
  assumes "parse_token e t args w = (Ret (nxt, args'), w')"
  shows "set (upcoming nxt w') \<subseteq> set (line_tokens (cstr (input w) (olds w)))"
proof -
  have two: "set (upcoming nxt w') \<subseteq> set (line_tokens (cstr (input w) (olds w)))"
    if a: "strtok None '' '' w = (x, w1)" and b: "strtok None '' '' w2 = (nxt, w')"
      and c: "input w2 = input w1" "olds w2 = olds w1" for x w1 w2
  proof -
    from strtok_next_upcoming [OF b] c
    have "upcoming nxt w' = line_tokens (cstr (input w1) (olds w1))" by simp
    also have "set \<dots> \<subseteq> set (upcoming x w1)" by (rule set_upcoming_rest)
    also have "upcoming x w1 = line_tokens (cstr (input w) (olds w))" by (rule strtok_next_upcoming [OF a])
    finally show ?thesis .
  qed
  have one: "set (upcoming nxt w') \<subseteq> set (line_tokens (cstr (input w) (olds w)))"
    if b: "strtok None '' '' w2 = (nxt, w')" and c: "input w2 = input w" "olds w2 = olds w" for w2
    using strtok_next_upcoming [OF b] c by simp
  show ?thesis
  proof (cases "cstr (input w) t = ''<'' \<or> cstr (input w) t = ''>''")
    case True
    with assms obtain fl w1 f where
      a: "strtok None '' '' w = (fl, w1)" and b: "strtok None '' '' (f w1) = (nxt, w')"
      and f: "input (f w1) = input w1" "olds (f w1) = olds w1"
      by (fastforce simp: parse_token_def split: if_splits prod.splits)
    from two [OF a b f] show ?thesis .
  next
    case False
    show ?thesis
    proof (cases "cstr (input w) t = ''&''")
      case True
      obtain peek w1 where a: "strtok None '' '' w = (peek, w1)" by (cases "strtok None '' '' w")
      from assms False True a obtain w2 where
        "strtok None '' '' w2 = (nxt, w')" "input w2 = input w1" "olds w2 = olds w1"
        by (auto simp: parse_token_def emit_def split: if_splits prod.splits call.splits)
      from two [OF a this] show ?thesis .
    next
      case F2: False
      from assms False F2 obtain w2 where
        "strtok None '' '' w2 = (nxt, w')" "input w2 = input w" "olds w2 = olds w"
        by (auto simp: parse_token_def emit_def split: if_splits prod.splits call.splits)
      from one [OF this] show ?thesis .
    qed
  qed
qed

lemma parse_token_redirect:
  assumes "parse_token e t args w = (r, w')"
  shows "(cstr (input w) t \<noteq> ''<'' \<longrightarrow> inputFile w' = inputFile w) \<and>
         (cstr (input w) t \<noteq> ''>'' \<longrightarrow> outputFile w' = outputFile w)"
  using assms
  by (auto simp: parse_token_def emit_def split: if_splits prod.splits call.splits
           dest!: strtok_redirect)

lemma parse_loop_redirect:
  "parse_loop e token args w = (r, w') \<Longrightarrow> set (upcoming token w) \<subseteq> T \<Longrightarrow>
     (''<'' \<notin> T \<longrightarrow> inputFile w' = inputFile w) \<and>
     (''>'' \<notin> T \<longrightarrow> outputFile w' = outputFile w)"
proof (induction e token args w rule: parse_loop.induct)
  case (1 e token args w)
  show ?case
  proof (cases token)
    case None
    with "1.prems" show ?thesis by simp
  next
    case (Some t)
    with "1.prems"(2) have tT: "cstr (input w) t \<in> T" by (simp add: upcoming_def)
    from "1.prems"(2) have restT: "set (line_tokens (cstr (input w) (olds w))) \<subseteq> T"
      using set_upcoming_rest [of w token] by blast
    show ?thesis
    proof (cases "length args < MAX_ARGS - 1")
      case False
      with Some "1.prems" show ?thesis by simp
    next
      case True
      obtain r1 w1 where pt: "parse_token e t args w = (r1, w1)" by (cases "parse_token e t args w")
      from parse_token_redirect [OF pt] tT
      have b1: "(''<'' \<notin> T \<longrightarrow> inputFile w1 = inputFile w) \<and> (''>'' \<notin> T \<longrightarrow> outputFile w1 = outputFile w)"
        by auto
      show ?thesis
      proof (cases r1)
        case (Exit c)
        with Some True pt "1.prems" have "w' = w1" by simp
        with b1 show ?thesis by simp
      next
        case (Ret x)
        obtain nxt args' where x: "x = (nxt, args')" by (cases x)
        with Some True pt Ret "1.prems" have pl: "parse_loop e nxt args' w1 = (r, w')" by simp
        from parse_token_upcoming pt Ret x restT have "set (upcoming nxt w1) \<subseteq> T" by blast
        from "1.IH" [OF Some _ pt [symmetric] Ret x [symmetric] pl this] True
        have "(''<'' \<notin> T \<longrightarrow> inputFile w' = inputFile w1) \<and> (''>'' \<notin> T \<longrightarrow> outputFile w' = outputFile w1)"
          by simp
        with b1 show ?thesis by auto
      qed
    qed
  qed
qed

lemma parseInput_redirect:
  assumes "parseInput e w = (r, w')"
  shows "(''<'' \<notin> set (line_tokens (cstr (input w) 0)) \<longrightarrow> inputFile w' = inputFile w) \<and>
         (''>'' \<notin> set (line_tokens (cstr (input w) 0)) \<longrightarrow> outputFile w' = outputFile w)"
proof -
  obtain token w1 where st: "strtok (Some 0) '' '' (w\<lparr>background := 0\<rparr>) = (token, w1)"
    by (cases "strtok (Some 0) '' '' (w\<lparr>background := 0\<rparr>)")
  obtain r2 w2 where pl: "parse_loop e token [] w1 = (r2, w2)" by (cases "parse_loop e token [] w1")
  from assms st pl have w': "w' = w2" by (auto simp: parseInput_def split: call.splits)
  from strtok_tokens [OF st] have "upcoming token w1 = line_tokens (cstr (input w) 0)"
    by (simp add: upcoming_def)
  then have "set (upcoming token w1) \<subseteq> set (line_tokens (cstr (input w) 0))" by simp
  from parse_loop_redirect [OF pl this] strtok_redirect [OF st] w' show ?thesis by simp
qed


lemma checkBackgroundProcesses_redirect:
  "inputFile (checkBackgroundProcesses w) = inputFile w \<and>
   outputFile (checkBackgroundProcesses w) = outputFile w"
proof (induction w rule: checkBackgroundProcesses.induct)
  case (1 w)
  obtain pid st w1 where wp: "waitpid_nohang w = (pid, st, w1)" by (cases "waitpid_nohang w")
  then have f: "inputFile w1 = inputFile w" "outputFile w1 = outputFile w"
    by (auto simp: waitpid_nohang_def split: option.splits)
  show ?case
  proof (cases "0 < pid")
    case False
    with wp f show ?thesis by (subst (1 2) checkBackgroundProcesses.simps) simp
  next
    case True
    from "1.IH" [OF wp [symmetric] refl True] wp True f show ?thesis
      by (subst (1 2) checkBackgroundProcesses.simps) (simp add: emit_def split: if_splits)
  qed
qed

lemma read_line_redirect:
  "read_line w = (b, w1) \<Longrightarrow> inputFile w1 = inputFile w \<and> outputFile w1 = outputFile w"
  using checkBackgroundProcesses_redirect [of w]
  by (auto simp: read_line_def fgets_def emit_def Let_def split: if_splits)

lemma child_stdin_opens:
  "child_stdin e (Some p) bg w = (Ret u, w') \<Longrightarrow>
     input w' = input w \<and> Open_file (cstr (input w) p) O_RDONLY \<in> set (trace w')"
  by (auto simp: child_stdin_def emit_def Let_def split: if_splits)

lemma child_stdout_keeps:
  "child_stdout e outFile bg w = (r, w') \<Longrightarrow> input w' = input w \<and> set (trace w) \<subseteq> set (trace w')"
  by (auto simp: child_stdout_def emit_def Let_def split: if_splits option.splits)

lemma child_block_opens:
  assumes "child_block e args (Some p) outFile bg w = Child_execs argv w'"
  shows "input w' = input w \<and> Open_file (cstr (input w) p) O_RDONLY \<in> set (trace w')"
proof -
  let ?w0 = "emit [Sigint_ignored (bg \<noteq> 0)] w"
  obtain r1 w1 where a: "child_stdin e (Some p) bg ?w0 = (r1, w1)" by (cases "child_stdin e (Some p) bg ?w0")
  obtain r2 w2 where b: "child_stdout e outFile bg w1 = (r2, w2)" by (cases "child_stdout e outFile bg w1")
  from assms a b obtain u where r1: "r1 = Ret u" and w2: "w' = w2"
    by (cases r1; cases r2) (auto simp: child_block_def split: if_splits)
  from child_stdin_opens [OF a [unfolded r1]]
  have "input w1 = input w" "Open_file (cstr (input w) p) O_RDONLY \<in> set (trace w1)"
    by (simp_all add: emit_def)
  with child_stdout_keeps [OF b] w2 show ?thesis by auto
qed

lemma main_iteration_child:
  assumes rl: "read_line w = (True, w1)"
    and out: "main_iteration e w = Child_execs argv w'"
  shows "\<exists>args valid w2. parseInput e w1 = (Ret (args, valid), w2) \<and>
           child_block e args (inputFile w2) (outputFile w2) (launch_background w2 (background w2)) w2 =
             Child_execs argv w'"
proof -
  obtain r w2 where p: "parseInput e w1 = (r, w2)" by (cases "parseInput e w1")
  from out rl p obtain args valid where r: "r = Ret (args, valid)"
    by (cases r) (auto simp: main_iteration_def)
  from out rl p r
  have "executeCommand e args (inputFile w2) (outputFile w2) (background w2) w2 = Child_execs argv w'"
    by (auto simp: main_iteration_def split: if_splits outcome.splits)
  then have "child_block e args (inputFile w2) (outputFile w2) (launch_background w2 (background w2)) w2 =
             Child_execs argv w'"
    by (auto simp: executeCommand_def Let_def split: if_splits)
  with p r show ?thesis by blast
qed

text \<open>
  What \<^verbatim>\<open>main\<close> does with the two pointers. After a dispatched command the iteration
  ends with both pointers null and \<^verbatim>\<open>background\<close> zero: this is the reset that the
  source makes ``for the next command''. After a line that yields skip the iteration
  ends through \<^verbatim>\<open>continue\<close>, in the very state the parser left, the reset not made. A
  pointer that is left set is dereferenced when the next command is launched: the child
  opens the string that the buffer holds at that offset then.
\<close>

lemma main_iteration_dispatch_clears:
  assumes "read_line w = (True, w1)" and "parseInput e w1 = (Ret (args, valid), w2)"
    and "valid \<noteq> 0" and "main_iteration e w = Returns w'"
  shows "inputFile w' = None \<and> outputFile w' = None \<and> background w' = 0"
  using assms by (auto simp: main_iteration_def split: if_splits outcome.splits)

lemma main_iteration_skip_keeps:
  assumes "read_line w = (True, w1)" and "parseInput e w1 = (Ret (args, 0), w2)"
  shows "main_iteration e w = Returns w2"
  using assms by (simp add: main_iteration_def)

lemma leftover_pointer_is_opened:
  assumes rl: "read_line w = (True, w1)"
    and nt: "''<'' \<notin> set (line_tokens (cstr (input w1) 0))"
    and lo: "inputFile w = Some p"
    and out: "main_iteration e w = Child_execs argv w3"
  shows "Open_file (cstr (input w3) p) O_RDONLY \<in> set (trace w3)"
proof -
  from main_iteration_child [OF rl out] obtain args' valid w2' where
    p: "parseInput e w1 = (Ret (args', valid), w2')" and
    cb: "child_block e args' (inputFile w2') (outputFile w2') (launch_background w2' (background w2')) w2' =
             Child_execs argv w3" by blast
  from parseInput_redirect [OF p] nt lo read_line_redirect [OF rl]
  have "inputFile w2' = Some p" by simp
  with cb child_block_opens show ?thesis by fastforce
qed

text \<open>
  Claim C10 says that a redirection path parsed from a line that yields skip persists and
  is applied to the next executed command. After the line \<^verbatim>\<open>< file\<close>, which yields
  skip, \<^verbatim>\<open>inputFile\<close> is still set: it is offset 2 of the buffer, where \<^verbatim>\<open>file\<close>
  stands. The next line \<^verbatim>\<open>cat\<close> is read into the same buffer, and the child that runs
  \<^verbatim>\<open>cat\<close> opens \<^verbatim>\<open>t\<close>, the string now at offset 2: the path that was parsed is
  not the one applied. On the sibling path, after the dispatched line \<^verbatim>\<open>cat < file\<close>,
  the pointer is null and the next \<^verbatim>\<open>cat\<close> opens nothing.
\<close>

theorem redirection_path_overwritten:
  "inputFile (final_world (main_iteration env0 (typed ''< file\<newline>cat\<newline>''))) = Some 2 \<and>
   cstr (input (final_world (main_iteration env0 (typed ''< file\<newline>cat\<newline>'')))) 2 = ''file'' \<and>
   trace (final_world (main_loop [env0, env0\<lparr>fork_ret := 0\<rparr>] (typed ''< file\<newline>cat\<newline>''))) =
     [Printf '': '', Printf '': '', Sigint_ignored False, Open_file ''t'' O_RDONLY, Dup2 3 0, Close_fd 3] \<and>
   inputFile (final_world (main_iteration env0 (typed ''cat < file\<newline>cat\<newline>''))) = None \<and>
   trace (final_world (main_loop [env0, env0\<lparr>fork_ret := 0\<rparr>] (typed ''cat < file\<newline>cat\<newline>''))) =
     [Printf '': '', Printf '': '', Sigint_ignored False]"
  by (simp add: run_simps)

end
